theory Spec2Isabelle
  imports Complex_Main "HOL-Library.AList"
begin

section \<open>Data model (src/types/index.ts)\<close>

text \<open>
  Strings are lists of characters. A \<^typ>\<open>char\<close> stands for one UTF-16 code unit below 256
  (the Latin-1 range), which is where every string function of the analyzer is modelled
  exactly.
\<close>

datatype BusType = EventBus | QueryBus | CommandBus

datatype HandlerType = QueryHandler | CommandHandler | EventsHandler

text \<open>\<open>ts.LineAndCharacter\<close>.\<close>

record LineAndCharacter =
  line :: nat
  character :: nat

text \<open>
  \<open>BusUsage\<close> and \<open>HandlerDeclaration\<close> share the fields \<open>sourceFile\<close>, \<open>className\<close>,
  \<open>eventType\<close> and \<open>position\<close>; they are the common part of both records, so that one
  selector reads the field of either edge kind. \<open>methodName\<close> is \<open>string | null\<close>.
\<close>

record Edge =
  sourceFile :: string
  className :: string
  eventType :: string
  position :: LineAndCharacter

record BusUsage = Edge +
  methodName :: "string option"
  busType :: BusType

record HandlerDeclaration = Edge +
  handlerType :: HandlerType

record AnalysisResult =
  busUsages :: "BusUsage list"
  handlerDeclarations :: "HandlerDeclaration list"

section \<open>Edge budget (src/diagram-generators/mermaid-generator.ts, generateDiagram)\<close>

text \<open>
  The first statements of \<open>MermaidGenerator.generateDiagram\<close>: the pair
  \<open>(busUsages, handlerDeclarations)\<close> that is handed on to \<open>generateMermaidContent\<close>.
  \<open>maxEdges\<close> is the integer budget (default 0). \<open>Array.prototype.slice(0, n)\<close> is
  \<^const>\<open>take\<close>; the division \<open>maxEdges / 2\<close> is the exact quotient and
  \<open>Math.floor\<close> is \<^const>\<open>floor\<close>.
\<close>

definition generateDiagram_edges ::
  "int \<Rightarrow> AnalysisResult \<Rightarrow> BusUsage list \<times> HandlerDeclaration list" where
  "generateDiagram_edges maxEdges result =
    (let busUsages0 = busUsages result;
         handlerDeclarations0 = handlerDeclarations result;
         totalEdges = int (length busUsages0) + int (length handlerDeclarations0)
     in if maxEdges > 0 \<and> totalEdges > maxEdges then
          (let busUsages1 =
                 (if real (length busUsages0) > real_of_int maxEdges / 2
                  then take (nat \<lfloor>real_of_int maxEdges / 2\<rfloor>) busUsages0
                  else busUsages0);
               remainingEdges = maxEdges - int (length busUsages1);
               handlerDeclarations1 =
                 (if remainingEdges > 0 \<and> int (length handlerDeclarations0) > remainingEdges
                  then take (nat remainingEdges) handlerDeclarations0
                  else handlerDeclarations0)
           in (busUsages1, handlerDeclarations1))
        else (busUsages0, handlerDeclarations0))"

section \<open>Syntax tree (the part of the TypeScript AST that src/file-analyzer reads)\<close>

text \<open>
  A type node is kept as its source text, which is all that \<open>getText(sourceFile)\<close> reads.
  Of an expression the analyzer tests the kind (\<open>ts.isIdentifier\<close>,
  \<open>ts.isPropertyAccessExpression\<close>, \<open>ts.isNewExpression\<close>, \<open>ts.isCallExpression\<close>) and reads
  \<open>text\<close>, \<open>expression\<close>, \<open>name\<close>, \<open>typeArguments\<close> and \<open>arguments\<close>; every kind it never
  looks into is \<open>OtherExpression\<close>. \<open>typeArguments\<close> is optional in the AST.
\<close>

datatype TypeNode = TypeNode string

datatype Expression =
    Identifier string
  | PrivateIdentifier string
  | StringLiteral string
  | ThisKeyword
  | PropertyAccessExpression Expression Expression
  | NewExpression Expression "Expression list"
  | CallExpr CallExpression
  | OtherExpression
and CallExpression =
    CallExpression Expression "TypeNode list option" "Expression list"

text \<open>
  A node with its \<open>parent\<close> pointers is the list of the node, its parent, the parent of that
  one, up to the source file. Of each node the walk reads the kind and the name: a class
  declaration has an optional identifier as name (kept as its \<open>text\<close>), a method declaration a
  property name (an identifier, a string literal, a private or computed name).
\<close>

datatype Node =
    ClassDeclaration "string option"
  | MethodDeclaration "Expression option"
  | OtherNode

text \<open>
  What \<open>processHandlerDeclaration\<close> reads of a class declaration and its source file: the
  name, the source text \<open>node.getText(sourceFile)\<close>, the decorators that \<open>ts.getDecorators\<close>
  returns (each by its \<open>expression\<close>; \<open>undefined\<close> is \<open>None\<close>) and the position.
\<close>

record ClassDeclarationNode =
  class_name :: "string option"
  class_text :: string
  class_decorators :: "Expression list option"
  class_position :: LineAndCharacter

text \<open>Whether the host's TypeScript exports the two decorator functions.\<close>

record TsApi =
  has_canHaveDecorators :: bool
  has_getDecorators :: bool

section \<open>String functions of the host language\<close>

text \<open>\<open>\s\<close> in a regular expression and the characters \<open>trim\<close> removes, below 256.\<close>

definition isWhiteSpace :: "char \<Rightarrow> bool" where
  "isWhiteSpace c = (of_char c \<in> {9, 10, 11, 12, 13, 32, 160 :: nat})"

text \<open>The character class \<open>[A-Za-z0-9_]\<close>.\<close>

definition isWordChar :: "char \<Rightarrow> bool" where
  "isWordChar c =
    (let n = of_char c :: nat
     in (65 \<le> n \<and> n \<le> 90) \<or> (97 \<le> n \<and> n \<le> 122) \<or> (48 \<le> n \<and> n \<le> 57) \<or> n = 95)"

text \<open>
  \<open>String.prototype.toLowerCase\<close> on code units below 256: the letters A-Z and the Latin-1
  capitals 0xC0-0xDE (but the multiplication sign 0xD7) move up by 32.
\<close>

definition toLowerChar :: "char \<Rightarrow> char" where
  "toLowerChar c =
    (let n = of_char c :: nat
     in if (65 \<le> n \<and> n \<le> 90) \<or> (192 \<le> n \<and> n \<le> 222 \<and> n \<noteq> 215)
        then char_of (n + 32) else c)"

definition toLowerCase :: "string \<Rightarrow> string" where
  "toLowerCase s = map toLowerChar s"

definition startsWith :: "string \<Rightarrow> string \<Rightarrow> bool" where
  "startsWith s searchString = (take (length searchString) s = searchString)"

text \<open>\<open>String.prototype.includes\<close>: the search string occurs at some position.\<close>

fun includesString :: "string \<Rightarrow> string \<Rightarrow> bool" where
  "includesString [] searchString = (searchString = [])"
| "includesString (c # cs) searchString =
    (startsWith (c # cs) searchString \<or> includesString cs searchString)"

definition trim :: "string \<Rightarrow> string" where
  "trim s = rev (dropWhile isWhiteSpace (rev (dropWhile isWhiteSpace s)))"

section \<open>Extraction (src/file-analyzer/index.ts)\<close>

fun findParentClass :: "Node list \<Rightarrow> string option" where
  "findParentClass [] = None"
| "findParentClass (current # parents) =
    (case current of
       ClassDeclaration (Some name) \<Rightarrow> Some name
     | _ \<Rightarrow> findParentClass parents)"

fun findMethodName :: "Node list \<Rightarrow> string option" where
  "findMethodName [] = None"
| "findMethodName (current # parents) =
    (case current of
       MethodDeclaration (Some name) \<Rightarrow>
         (case name of Identifier t \<Rightarrow> Some t | _ \<Rightarrow> None)
     | _ \<Rightarrow> findMethodName parents)"

definition getText :: "TypeNode \<Rightarrow> string" where
  "getText typeArg = (case typeArg of TypeNode t \<Rightarrow> t)"

definition extractTypeArgument :: "CallExpression \<Rightarrow> string" where
  "extractTypeArgument node =
    (case node of CallExpression expression typeArguments arguments \<Rightarrow>
      (case typeArguments of
         Some (typeArg # _) \<Rightarrow> getText typeArg
       | _ \<Rightarrow>
         (case arguments of
            [] \<Rightarrow> ''Unknown''
          | firstArg # _ \<Rightarrow>
            (case firstArg of
               NewExpression (Identifier t) _ \<Rightarrow> t
             | Identifier t \<Rightarrow> t
             | PropertyAccessExpression _ (Identifier t) \<Rightarrow> t
             | _ \<Rightarrow> ''Unknown''))))"

definition determineBusType :: "string \<Rightarrow> BusType option" where
  "determineBusType objectName =
    (let lowerName = toLowerCase objectName
     in if includesString lowerName ''event'' \<and> includesString lowerName ''bus'' then Some EventBus
        else if includesString lowerName ''query'' \<and> includesString lowerName ''bus'' then Some QueryBus
        else if includesString lowerName ''command'' \<and> includesString lowerName ''bus'' then Some CommandBus
        else None)"

definition getObjectName :: "Expression \<Rightarrow> string" where
  "getObjectName expr =
    (case expr of
       Identifier t \<Rightarrow> t
     | PropertyAccessExpression _ (Identifier t) \<Rightarrow> t
     | _ \<Rightarrow> [])"

text \<open>
  \<open>processPotentialBusUsage(node, sourceFile, filePath, result)\<close>. \<open>parents\<close> is the chain
  \<open>node.parent, node.parent.parent, ...\<close> and \<open>pos\<close> is \<open>getLineAndCharacter(node, sourceFile)\<close>.
  The lookups start at the call expression itself, which is neither a class nor a method
  declaration. \<open>findParentClass(node) || 'Unknown'\<close> replaces \<open>null\<close> and the empty string.
  The function returns the updated \<open>result\<close>.
\<close>

definition processPotentialBusUsage ::
  "CallExpression \<Rightarrow> Node list \<Rightarrow> LineAndCharacter \<Rightarrow> string \<Rightarrow> AnalysisResult \<Rightarrow> AnalysisResult" where
  "processPotentialBusUsage node parents pos filePath result =
    (case node of CallExpression expression typeArguments arguments \<Rightarrow>
      (case expression of
         PropertyAccessExpression receiver name \<Rightarrow>
           (case name of
              Identifier methodName' \<Rightarrow>
                if methodName' \<notin> set [''publish'', ''execute'', ''dispatch''] then result
                else
                  (case determineBusType (getObjectName receiver) of
                     None \<Rightarrow> result
                   | Some busType' \<Rightarrow>
                       (let className' =
                              (case findParentClass (OtherNode # parents) of
                                 None \<Rightarrow> ''Unknown''
                               | Some n \<Rightarrow> if n = [] then ''Unknown'' else n);
                            enclosingMethod = findMethodName (OtherNode # parents);
                            eventType' = extractTypeArgument node
                        in result\<lparr>busUsages := busUsages result @
                             [\<lparr>sourceFile = filePath, className = className',
                               eventType = eventType', position = pos,
                               methodName = enclosingMethod, busType = busType'\<rparr>]\<rparr>))
            | _ \<Rightarrow> result)
       | _ \<Rightarrow> result))"

subsection \<open>Path A: the regular expressions of processHandlerDeclaration\<close>

text \<open>
  The alternation \<open>(QueryHandler|CommandHandler|EventsHandler)\<close> at the start of a string:
  the handler type and the rest of the string.
\<close>

definition matchHandlerName :: "string \<Rightarrow> (HandlerType \<times> string) option" where
  "matchHandlerName s =
    (if startsWith s ''QueryHandler''
       then Some (QueryHandler, drop (length ''QueryHandler'') s)
     else if startsWith s ''CommandHandler''
       then Some (CommandHandler, drop (length ''CommandHandler'') s)
     else if startsWith s ''EventsHandler''
       then Some (EventsHandler, drop (length ''EventsHandler'') s)
     else None)"

text \<open>
  One attempt of \<open>/@(QueryHandler|CommandHandler|EventsHandler)\s*\(([^)]*)\)/\<close> at the start
  of a string: group 1, group 2 and the text after the match. \<open>\s*\<close> and \<open>[^)]*\<close> are
  greedy, and giving characters back never helps: the character after the white space must
  be an opening parenthesis, the one after group 2 a closing one.
\<close>

definition matchDecoratorAt :: "string \<Rightarrow> (HandlerType \<times> string \<times> string) option" where
  "matchDecoratorAt s =
    (case s of
       [] \<Rightarrow> None
     | c # s1 \<Rightarrow>
         if c \<noteq> CHR ''@'' then None
         else
           (case matchHandlerName s1 of
              None \<Rightarrow> None
            | Some (h, s2) \<Rightarrow>
                (case dropWhile isWhiteSpace s2 of
                   [] \<Rightarrow> None
                 | p # s3 \<Rightarrow>
                     if p \<noteq> CHR ''('' then None
                     else
                       (case dropWhile (\<lambda>x. x \<noteq> CHR '')'') s3 of
                          [] \<Rightarrow> None
                        | _ # rest \<Rightarrow>
                            Some (h, takeWhile (\<lambda>x. x \<noteq> CHR '')'') s3, rest)))))"

lemma matchHandlerName_length:
  "matchHandlerName s = Some (h, r) \<Longrightarrow> length r \<le> length s"
  by (auto simp: matchHandlerName_def split: if_splits)

lemma matchDecoratorAt_length:
  assumes "matchDecoratorAt s = Some (h, a, r)"
  shows "length r < length s"
proof -
  from assms obtain c s1 h' s2 p s3 q where
    s: "s = c # s1" and m: "matchHandlerName s1 = Some (h', s2)" and
    w: "dropWhile isWhiteSpace s2 = p # s3" and
    d: "dropWhile (\<lambda>x. x \<noteq> CHR '')'') s3 = q # r"
    by (auto simp: matchDecoratorAt_def split: list.splits if_splits option.splits)
  have "length (q # r) \<le> length s3"
    unfolding d[symmetric] by (rule length_dropWhile_le)
  moreover have "length (p # s3) \<le> length s2"
    unfolding w[symmetric] by (rule length_dropWhile_le)
  moreover have "length s2 \<le> length s1"
    using m by (rule matchHandlerName_length)
  ultimately show ?thesis using s by simp
qed

text \<open>
  \<open>Array.from(nodeText.matchAll(/.../g))\<close>: groups 1 and 2 of every match, from left to
  right. After a match the search goes on behind it, otherwise at the next character.
\<close>

function matchAllDecorators :: "string \<Rightarrow> (HandlerType \<times> string) list" where
  "matchAllDecorators [] = []"
| "matchAllDecorators (c # cs) =
    (case matchDecoratorAt (c # cs) of
       Some (h, args, rest) \<Rightarrow> (h, args) # matchAllDecorators rest
     | None \<Rightarrow> matchAllDecorators cs)"
  by pat_completeness auto
termination
  by (relation "measure length") (auto dest: matchDecoratorAt_length)

text \<open>
  \<open>argsText.match(/([A-Za-z0-9_]+)/)\<close>: the first, longest run of word characters, or
  \<open>null\<close>.
\<close>

definition matchClassName :: "string \<Rightarrow> string option" where
  "matchClassName argsText =
    (case dropWhile (\<lambda>c. \<not> isWordChar c) argsText of
       [] \<Rightarrow> None
     | c # cs \<Rightarrow> Some (takeWhile isWordChar (c # cs)))"

text \<open>The body of the loop over \<open>decoratorMatches\<close>.\<close>

definition pathA_push ::
  "string \<Rightarrow> string \<Rightarrow> LineAndCharacter \<Rightarrow> HandlerType \<times> string \<Rightarrow> AnalysisResult \<Rightarrow> AnalysisResult" where
  "pathA_push className' filePath pos match result =
    (let handlerType' = fst match;
         argsText = trim (snd match);
         eventType' = (case matchClassName argsText of None \<Rightarrow> ''Unknown'' | Some t \<Rightarrow> t)
     in result\<lparr>handlerDeclarations := handlerDeclarations result @
          [\<lparr>sourceFile = filePath, className = className', eventType = eventType',
            position = pos, handlerType = handlerType'\<rparr>]\<rparr>)"

subsection \<open>Path B: the decorators of the TypeScript API\<close>

definition handlerTypeOfName :: "string \<Rightarrow> HandlerType option" where
  "handlerTypeOfName decoratorName =
    (if decoratorName = ''QueryHandler'' then Some QueryHandler
     else if decoratorName = ''CommandHandler'' then Some CommandHandler
     else if decoratorName = ''EventsHandler'' then Some EventsHandler
     else None)"

text \<open>
  The body of the loop over \<open>decorators\<close>, for a decorator given by its \<open>expression\<close>; every
  \<open>continue\<close> returns the result as it is. (\<open>ts.isDecorator\<close> holds of every element that
  \<open>ts.getDecorators\<close> returns.)
\<close>

definition pathB_step ::
  "string \<Rightarrow> string \<Rightarrow> LineAndCharacter \<Rightarrow> Expression \<Rightarrow> AnalysisResult \<Rightarrow> AnalysisResult" where
  "pathB_step className' filePath pos expression result =
    (case expression of
       CallExpr call \<Rightarrow>
         (case call of CallExpression callee typeArguments arguments \<Rightarrow>
           (case callee of
              Identifier decoratorName \<Rightarrow>
                (case handlerTypeOfName decoratorName of
                   None \<Rightarrow> result
                 | Some handlerType' \<Rightarrow>
                     (let eventType' = extractTypeArgument call;
                          exists = list_ex
                            (\<lambda>h. className h = className' \<and> handlerType h = handlerType')
                            (handlerDeclarations result)
                      in if \<not> exists
                         then result\<lparr>handlerDeclarations := handlerDeclarations result @
                                [\<lparr>sourceFile = filePath, className = className',
                                  eventType = eventType', position = pos,
                                  handlerType = handlerType'\<rparr>]\<rparr>
                         else result))
            | _ \<Rightarrow> result))
     | _ \<Rightarrow> result)"

text \<open>
  \<open>processHandlerDeclaration(node, sourceFile, filePath, result)\<close>, with the host's API as
  a further argument. \<open>ts.canHaveDecorators\<close> holds of every class declaration. Nothing in
  the \<open>try\<close> block of the model throws, so the \<open>catch\<close> branch, which only logs, has no
  counterpart.
\<close>

definition processHandlerDeclaration ::
  "TsApi \<Rightarrow> ClassDeclarationNode \<Rightarrow> string \<Rightarrow> AnalysisResult \<Rightarrow> AnalysisResult" where
  "processHandlerDeclaration ts node filePath result =
    (case class_name node of
       None \<Rightarrow> result
     | Some className' \<Rightarrow>
         (let decoratorMatches = matchAllDecorators (class_text node);
              result1 = fold (pathA_push className' filePath (class_position node))
                          decoratorMatches result
          in if has_canHaveDecorators ts \<and> has_getDecorators ts then
               (case class_decorators node of
                  None \<Rightarrow> result1
                | Some decorators \<Rightarrow>
                    fold (pathB_step className' filePath (class_position node))
                      decorators result1)
             else result1))"

section \<open>Architecture analysis (src/architecture-analyzer/index.ts)\<close>

text \<open>
  A \<open>Set\<close> is the list of its elements in insertion order. A \<open>Map\<close> is the list of its
  entries in insertion order: \<open>has\<close> and \<open>get\<close> are \<^const>\<open>map_of\<close>, \<open>set\<close> is
  \<^const>\<open>AList.update\<close>, which overwrites the entry of a present key where it stands and
  appends the entry of a new one. \<open>forEach\<close> is \<^const>\<open>fold\<close>.
\<close>

definition Set_add :: "'a list \<Rightarrow> 'a \<Rightarrow> 'a list" where
  "Set_add s x = (if x \<in> set s then s else s @ [x])"

datatype IssueSeverity = INFO | WARNING | ERROR

text \<open>The three shapes of the \<open>context\<close> field (of type \<open>any\<close>) that the analyzer writes.\<close>

datatype IssueContext =
    CouplingContext "(string \<times> nat) list"
  | ProducersContext "(string \<times> string list) list"
  | HandlersContext "(string \<times> string list) list"

record ArchitectureIssue =
  issue_type :: string
  issue_severity :: IssueSeverity
  issue_description :: string
  issue_elements :: "string list"
  issue_context :: "IssueContext option"

text \<open>
  \<open>averageConnections\<close> is a floating-point number of the host; its type is the parameter
  \<open>'n\<close> of the metrics and of the analysis result. The other metrics are counts.
\<close>

record 'n Metrics =
  metrics_totalClasses :: nat
  metrics_totalEvents :: nat
  metrics_eventProducers :: nat
  metrics_eventConsumers :: nat
  metrics_dualRoleClasses :: nat
  metrics_orphanEvents :: nat
  metrics_orphanHandlers :: nat
  metrics_averageConnections :: 'n

record 'n ArchitectureAnalysisResult =
  issues :: "ArchitectureIssue list"
  metrics :: "'n Metrics"

definition busUsers :: "AnalysisResult \<Rightarrow> string list" where
  "busUsers result = fold (\<lambda>usage s. Set_add s (className usage)) (busUsages result) []"

definition handlerClasses :: "AnalysisResult \<Rightarrow> string list" where
  "handlerClasses result =
    fold (\<lambda>handler s. Set_add s (className handler)) (handlerDeclarations result) []"

definition dualRoleClasses :: "AnalysisResult \<Rightarrow> string list" where
  "dualRoleClasses result =
    fold (\<lambda>className' s. if className' \<in> set (handlerClasses result) then Set_add s className' else s)
      (busUsers result) []"

text \<open>\<open>classCouplingCount.get(k) || 0\<close> followed by \<open>set(k, count + 1)\<close>.\<close>

definition countUp :: "string \<Rightarrow> (string \<times> nat) list \<Rightarrow> (string \<times> nat) list" where
  "countUp k m =
    (let count = (case map_of m k of None \<Rightarrow> 0 | Some c \<Rightarrow> c)
     in AList.update k (count + 1) m)"

definition classCouplingCount :: "AnalysisResult \<Rightarrow> (string \<times> nat) list" where
  "classCouplingCount result =
    fold (\<lambda>handler m. countUp (className handler) m) (handlerDeclarations result)
      (fold (\<lambda>usage m. countUp (className usage) m) (busUsages result) [])"

definition highCouplingClasses :: "AnalysisResult \<Rightarrow> (string \<times> nat) list" where
  "highCouplingClasses result =
    fold (\<lambda>(className', count) acc. if count > 5 then acc @ [(className', count)] else acc)
      (classCouplingCount result) []"

text \<open>
  \<open>if (!m.has(k)) m.set(k, []); m.get(k)?.push(v)\<close>: the array of the entry grows in
  place.
\<close>

definition pushTo :: "string \<Rightarrow> string \<Rightarrow> (string \<times> string list) list \<Rightarrow> (string \<times> string list) list" where
  "pushTo k v m =
    (let m1 = (if map_of m k = None then AList.update k [] m else m)
     in case map_of m1 k of
          None \<Rightarrow> m1
        | Some vs \<Rightarrow> AList.update k (vs @ [v]) m1)"

definition eventEmitters :: "AnalysisResult \<Rightarrow> (string \<times> string list) list" where
  "eventEmitters result =
    fold (\<lambda>usage m. pushTo (eventType usage) (className usage) m) (busUsages result) []"

definition eventHandlers :: "AnalysisResult \<Rightarrow> (string \<times> string list) list" where
  "eventHandlers result =
    fold (\<lambda>handler m. pushTo (eventType handler) (className handler) m)
      (handlerDeclarations result) []"

text \<open>\<open>!other.has(eventType) || other.get(eventType)?.length === 0\<close>.\<close>

definition absentOrEmpty :: "(string \<times> string list) list \<Rightarrow> string \<Rightarrow> bool" where
  "absentOrEmpty other eventType' =
    (case map_of other eventType' of None \<Rightarrow> True | Some vs \<Rightarrow> length vs = 0)"

definition unhandledEvents :: "AnalysisResult \<Rightarrow> string list" where
  "unhandledEvents result =
    fold (\<lambda>(eventType', emitters) acc.
            if absentOrEmpty (eventHandlers result) eventType' then acc @ [eventType'] else acc)
      (eventEmitters result) []"

definition orphanHandlers :: "AnalysisResult \<Rightarrow> string list" where
  "orphanHandlers result =
    fold (\<lambda>(eventType', handlers) acc.
            if absentOrEmpty (eventEmitters result) eventType' then acc @ [eventType'] else acc)
      (eventHandlers result) []"

text \<open>The pair \<open>(totalConnections, classCount)\<close> after the loop over \<open>classCouplingCount\<close>.\<close>

definition connectionTotals :: "AnalysisResult \<Rightarrow> nat \<times> nat" where
  "connectionTotals result =
    fold (\<lambda>(className', count) (totalConnections, classCount).
            (totalConnections + count, classCount + 1))
      (classCouplingCount result) (0, 0)"

text \<open>
  \<open>classCount > 0 ? totalConnections / classCount : 0\<close>. The division is the floating-point
  division of the host, applied to two counts; it is the parameter \<open>jsDivide\<close>, of which
  nothing is assumed, in particular not its value for a divisor 0 (\<open>NaN\<close> in the host).
  \<open>jsZero\<close> is the host's number 0.
\<close>

definition averageConnections :: "(nat \<Rightarrow> nat \<Rightarrow> 'n) \<Rightarrow> 'n \<Rightarrow> AnalysisResult \<Rightarrow> 'n" where
  "averageConnections jsDivide jsZero result =
    (let (totalConnections, classCount) = connectionTotals result
     in if classCount > 0 then jsDivide totalConnections classCount else jsZero)"

definition allEventTypes :: "AnalysisResult \<Rightarrow> string list" where
  "allEventTypes result =
    fold (\<lambda>handler s. Set_add s (eventType handler)) (handlerDeclarations result)
      (fold (\<lambda>usage s. Set_add s (eventType usage)) (busUsages result) [])"

text \<open>\<open>m.get(e) || []\<close>.\<close>

definition getOrEmpty :: "(string \<times> string list) list \<Rightarrow> string \<Rightarrow> string list" where
  "getOrEmpty m e = (case map_of m e of None \<Rightarrow> [] | Some vs \<Rightarrow> vs)"

definition analyzeIssues :: "AnalysisResult \<Rightarrow> ArchitectureIssue list" where
  "analyzeIssues result =
    (if length (dualRoleClasses result) > 0 then
       [\<lparr>issue_type = ''SingleResponsibilityViolation'', issue_severity = WARNING,
         issue_description = ''Classes that both produce and consume events may violate the Single Responsibility Principle'',
         issue_elements = dualRoleClasses result, issue_context = None\<rparr>]
     else []) @
    (if length (highCouplingClasses result) > 0 then
       [\<lparr>issue_type = ''HighCoupling'', issue_severity = WARNING,
         issue_description = ''Classes with too many connections may be difficult to maintain and test'',
         issue_elements = map fst (highCouplingClasses result),
         issue_context = Some (CouplingContext (highCouplingClasses result))\<rparr>]
     else []) @
    (if length (unhandledEvents result) > 0 then
       [\<lparr>issue_type = ''UnhandledEvents'', issue_severity = ERROR,
         issue_description = ''Events that are produced but not handled may indicate incomplete implementation'',
         issue_elements = unhandledEvents result,
         issue_context = Some (ProducersContext
           (map (\<lambda>e. (e, getOrEmpty (eventEmitters result) e)) (unhandledEvents result)))\<rparr>]
     else []) @
    (if length (orphanHandlers result) > 0 then
       [\<lparr>issue_type = ''OrphanHandlers'', issue_severity = WARNING,
         issue_description = ''Handlers for events that are not produced may be dead code'',
         issue_elements = orphanHandlers result,
         issue_context = Some (HandlersContext
           (map (\<lambda>e. (e, getOrEmpty (eventHandlers result) e)) (orphanHandlers result)))\<rparr>]
     else [])"

text \<open>
  \<open>analyzeArchitecture(result)\<close>, with the host's division and number 0 as further
  arguments.
\<close>

definition analyzeArchitecture ::
  "(nat \<Rightarrow> nat \<Rightarrow> 'n) \<Rightarrow> 'n \<Rightarrow> AnalysisResult \<Rightarrow> 'n ArchitectureAnalysisResult" where
  "analyzeArchitecture jsDivide jsZero result =
    \<lparr>issues = analyzeIssues result,
     metrics =
       \<lparr>metrics_totalClasses = length (classCouplingCount result),
        metrics_totalEvents = length (allEventTypes result),
        metrics_eventProducers = length (busUsers result),
        metrics_eventConsumers = length (handlerClasses result),
        metrics_dualRoleClasses = length (dualRoleClasses result),
        metrics_orphanEvents = length (unhandledEvents result),
        metrics_orphanHandlers = length (orphanHandlers result),
        metrics_averageConnections = averageConnections jsDivide jsZero result\<rparr>\<rparr>"

section \<open>Notions of the statements\<close>

text \<open>
  The kinds of node the two lookups stop at: a class declaration that has a name, a method
  declaration that has a name, and a method declaration whose name is an identifier.
\<close>

fun isNamedClass :: "Node \<Rightarrow> bool" where
  "isNamedClass (ClassDeclaration (Some _)) = True"
| "isNamedClass _ = False"

fun isNamedMethod :: "Node \<Rightarrow> bool" where
  "isNamedMethod (MethodDeclaration (Some _)) = True"
| "isNamedMethod _ = False"

fun hasIdentifierName :: "Node \<Rightarrow> bool" where
  "hasIdentifierName (MethodDeclaration (Some (Identifier _))) = True"
| "hasIdentifierName _ = False"

text \<open>
  The method lookup in the words of the specification: the walk stops at the first method
  declaration with an identifier name. It is compared with \<^const>\<open>findMethodName\<close> below.
\<close>

definition spec_findMethodName :: "Node list \<Rightarrow> string option" where
  "spec_findMethodName chain =
    (case find hasIdentifierName chain of
       Some (MethodDeclaration (Some (Identifier t))) \<Rightarrow> Some t
     | _ \<Rightarrow> None)"

text \<open>
  The case-insensitive substring test of the specification: at some position of \<open>s\<close> stands
  a string that equals \<open>w\<close> up to the case of its letters.
\<close>

definition containsIgnoreCase :: "string \<Rightarrow> string \<Rightarrow> bool" where
  "containsIgnoreCase s w =
    list_ex (\<lambda>i. toLowerCase (take (length w) (drop i s)) = toLowerCase w) [0..<Suc (length s)]"

text \<open>
  The edge that Path A pushes for one match of the decorator pattern, and the test of the
  reconciliation: an edge of a given class name and handler type.
\<close>

definition pathA_edge ::
  "string \<Rightarrow> string \<Rightarrow> LineAndCharacter \<Rightarrow> HandlerType \<times> string \<Rightarrow> HandlerDeclaration" where
  "pathA_edge c filePath pos match =
    \<lparr>sourceFile = filePath, className = c,
     eventType = (case matchClassName (trim (snd match)) of None \<Rightarrow> ''Unknown'' | Some t \<Rightarrow> t),
     position = pos, handlerType = fst match\<rparr>"

definition samePair :: "string \<Rightarrow> HandlerType \<Rightarrow> HandlerDeclaration \<Rightarrow> bool" where
  "samePair c h x = (className x = c \<and> handlerType x = h)"

text \<open>
  An expression in which every identifier and every type argument has a text that is not
  empty, as in the tree of a source file without syntax errors. (For a token it expects and
  does not find, the parser's error recovery inserts an identifier whose text is empty.)
  \<open>eventTypesNonEmpty\<close> is the invariant of the data model's statement, and
  \<open>decoratorsNoEmptyText\<close> lifts the condition to the decorators of a class.
\<close>

fun noEmptyText :: "Expression \<Rightarrow> bool" and callNoEmptyText :: "CallExpression \<Rightarrow> bool" where
  "noEmptyText (Identifier t) = (t \<noteq> [])"
| "noEmptyText (PrivateIdentifier t) = (t \<noteq> [])"
| "noEmptyText (StringLiteral t) = True"
| "noEmptyText ThisKeyword = True"
| "noEmptyText (PropertyAccessExpression e n) = (noEmptyText e \<and> noEmptyText n)"
| "noEmptyText (NewExpression e args) = (noEmptyText e \<and> list_all noEmptyText args)"
| "noEmptyText (CallExpr c) = callNoEmptyText c"
| "noEmptyText OtherExpression = True"
| "callNoEmptyText (CallExpression e typeArguments args) =
    (noEmptyText e \<and>
     (case typeArguments of None \<Rightarrow> True | Some ts \<Rightarrow> list_all (\<lambda>t. getText t \<noteq> []) ts) \<and>
     list_all noEmptyText args)"

definition eventTypesNonEmpty :: "AnalysisResult \<Rightarrow> bool" where
  "eventTypesNonEmpty result =
    (list_all (\<lambda>e. eventType e \<noteq> []) (busUsages result) \<and>
     list_all (\<lambda>e. eventType e \<noteq> []) (handlerDeclarations result))"

definition decoratorsNoEmptyText :: "ClassDeclarationNode \<Rightarrow> bool" where
  "decoratorsNoEmptyText node =
    (case class_decorators node of None \<Rightarrow> True | Some ds \<Rightarrow> list_all noEmptyText ds)"

text \<open>
  The classes that occur in an analysis result, and the coupling count of a class in the
  words of the specification: its number of bus-usage edges plus its number of handler
  edges.
\<close>

definition classes :: "AnalysisResult \<Rightarrow> string set" where
  "classes result = className ` set (busUsages result) \<union> className ` set (handlerDeclarations result)"

definition couplingOf :: "AnalysisResult \<Rightarrow> string \<Rightarrow> nat" where
  "couplingOf result c =
    count_list (map className (busUsages result)) c +
    count_list (map className (handlerDeclarations result)) c"

text \<open>No key of the map has an empty array.\<close>

definition valuesNonEmpty :: "(string \<times> string list) list \<Rightarrow> bool" where
  "valuesNonEmpty m = (\<forall>k vs. map_of m k = Some vs \<longrightarrow> vs \<noteq> [])"

section \<open>Scenario inputs\<close>

text \<open>Edges of the scenarios, with the fields that play no role there fixed.\<close>

definition sampleUsage :: "string \<Rightarrow> string \<Rightarrow> BusUsage" where
  "sampleUsage c e =
    \<lparr>sourceFile = ''src/app.ts'', className = c, eventType = e,
     position = \<lparr>line = 0, character = 0\<rparr>, methodName = None, busType = CommandBus\<rparr>"

definition sampleHandler :: "string \<Rightarrow> string \<Rightarrow> HandlerDeclaration" where
  "sampleHandler c e =
    \<lparr>sourceFile = ''src/app.ts'', className = c, eventType = e,
     position = \<lparr>line = 0, character = 0\<rparr>, handlerType = CommandHandler\<rparr>"

text \<open>
  The parent chain of a call inside the method \<open>'inner'() { ... }\<close> of an object literal that
  stands in the method \<open>outer\<close> of the class \<open>OrderService\<close>.
\<close>

definition nestedMethodChain :: "Node list" where
  "nestedMethodChain =
    [OtherNode, MethodDeclaration (Some (StringLiteral ''inner'')), OtherNode,
     MethodDeclaration (Some (Identifier ''outer'')), ClassDeclaration (Some ''OrderService'')]"

text \<open>
  Scenario 1: the call \<open>this.commandBus.execute(new CreateOrderCommand())\<close> in the method
  \<open>placeOrder\<close> of the class \<open>OrderService\<close>. Its parents are the expression statement, the
  block, the method, the class and the source file.
\<close>

definition placeOrderParents :: "Node list" where
  "placeOrderParents =
    [OtherNode, OtherNode, MethodDeclaration (Some (Identifier ''placeOrder'')),
     ClassDeclaration (Some ''OrderService''), OtherNode]"

definition executeCreateOrder :: CallExpression where
  "executeCreateOrder =
    CallExpression
      (PropertyAccessExpression (PropertyAccessExpression ThisKeyword (Identifier ''commandBus''))
         (Identifier ''execute''))
      None [NewExpression (Identifier ''CreateOrderCommand'') []]"

text \<open>
  Scenario 2 with a qualified name, \<open>@CommandHandler(commands.CreateOrderCommand)\<close>, for which
  the two paths infer different event types; and a handler class whose body mentions a
  second decorator in a comment.
\<close>

definition decoratorApi :: TsApi where
  "decoratorApi = \<lparr>has_canHaveDecorators = True, has_getDecorators = True\<rparr>"

definition qualifiedHandlerClass :: ClassDeclarationNode where
  "qualifiedHandlerClass =
    \<lparr>class_name = Some ''OrderHandler'',
     class_text = ''@CommandHandler(commands.CreateOrderCommand) export class OrderHandler {}'',
     class_decorators = Some [CallExpr (CallExpression (Identifier ''CommandHandler'') None
       [PropertyAccessExpression (Identifier ''commands'') (Identifier ''CreateOrderCommand'')])],
     class_position = \<lparr>line = 2, character = 0\<rparr>\<rparr>"

definition commentedHandlerClass :: ClassDeclarationNode where
  "commentedHandlerClass =
    \<lparr>class_name = Some ''OrderHandler'',
     class_text = ''@CommandHandler(CreateOrderCommand) export class OrderHandler { /* was @CommandHandler(LegacyOrderCommand) */ }'',
     class_decorators = Some [CallExpr (CallExpression (Identifier ''CommandHandler'') None
       [Identifier ''CreateOrderCommand''])],
     class_position = \<lparr>line = 2, character = 0\<rparr>\<rparr>"

definition emptyResult :: AnalysisResult where
  "emptyResult = \<lparr>busUsages = [], handlerDeclarations = []\<rparr>"

text \<open>
  The calls \<open>this.commandBus.execute(order.)\<close>, in which the name after the dot is missing,
  and \<open>this.commandBus.execute(new)\<close>, in which the operand of \<open>new\<close> is missing. In both
  places the parser inserts an identifier with an empty text.
\<close>

definition missingNameCall :: CallExpression where
  "missingNameCall =
    CallExpression
      (PropertyAccessExpression (PropertyAccessExpression ThisKeyword (Identifier ''commandBus''))
         (Identifier ''execute''))
      None [PropertyAccessExpression (Identifier ''order'') (Identifier [])]"

definition missingOperandCall :: CallExpression where
  "missingOperandCall =
    CallExpression
      (PropertyAccessExpression (PropertyAccessExpression ThisKeyword (Identifier ''commandBus''))
         (Identifier ''execute''))
      None [NewExpression (Identifier []) []]"

text \<open>
  Numbers of the scenarios, kept as the operation of the host that yields them: the number 0,
  or the floating-point division of one count by another. The division by 0 is a value of
  its own, different from the number 0.
\<close>

datatype HostNumber = HostZero | HostQuotient nat nat

text \<open>
  Three bus usages of two classes and two handler declarations, one of them in a class that
  also uses a bus.
\<close>

definition sampleResult :: AnalysisResult where
  "sampleResult =
    \<lparr>busUsages =
       [sampleUsage ''OrderService'' ''CreateOrderCommand'',
        sampleUsage ''OrderService'' ''ShipOrderCommand'',
        sampleUsage ''OrderHandler'' ''OrderCreatedEvent''],
     handlerDeclarations =
       [sampleHandler ''OrderHandler'' ''CreateOrderCommand'',
        sampleHandler ''AuditHandler'' ''OrderArchivedEvent'']\<rparr>"

section \<open>The edge budget\<close>

lemma exceeds_half: "(real_of_int m / 2 < real n) = (m < 2 * int n)"
  by (simp add: field_simps) linarith

lemma floor_half: "\<lfloor>real_of_int m / 2\<rfloor> = m div 2"
  using floor_divide_of_int_eq[of m 2, where ?'a = real] by simp

lemma generateDiagram_edges_int:
  "generateDiagram_edges maxEdges result =
    (if 0 < maxEdges \<and>
        maxEdges < int (length (busUsages result)) + int (length (handlerDeclarations result))
     then (let b = (if maxEdges < 2 * int (length (busUsages result))
                    then take (nat (maxEdges div 2)) (busUsages result)
                    else busUsages result);
               remaining = maxEdges - int (length b)
           in (b, if 0 < remaining \<and> remaining < int (length (handlerDeclarations result))
                  then take (nat remaining) (handlerDeclarations result)
                  else handlerDeclarations result))
     else (busUsages result, handlerDeclarations result))"
  unfolding generateDiagram_edges_def Let_def exceeds_half floor_half by simp

lemma generateDiagram_edges_within_budget:
  assumes "0 < maxEdges"
    and "maxEdges < int (length (busUsages result)) + int (length (handlerDeclarations result))"
  shows "int (length (fst (generateDiagram_edges maxEdges result))) +
         int (length (snd (generateDiagram_edges maxEdges result))) \<le> maxEdges"
  unfolding generateDiagram_edges_int Let_def using assms by (auto simp: min_def)

text \<open>
  Claim C2. With a positive budget that the combined edge count exceeds: the bus usages become
  their prefix of length \<open>floor(maxEdges / 2)\<close> when their count exceeds half the budget; the
  handler declarations become their prefix of length \<open>remaining\<close>, the budget minus the
  bus-usage count after that step, when \<open>remaining\<close> is positive and their count exceeds it.
  Both results are prefixes, so nothing is reordered. With budget 3, four bus usages and two
  handler declarations, one bus usage and both handler declarations are kept.
\<close>

theorem budget_truncation:
  assumes "0 < maxEdges"
    and "maxEdges < int (length (busUsages result)) + int (length (handlerDeclarations result))"
  shows "fst (generateDiagram_edges maxEdges result) =
           (if maxEdges < 2 * int (length (busUsages result))
            then take (nat (maxEdges div 2)) (busUsages result)
            else busUsages result) \<and>
         snd (generateDiagram_edges maxEdges result) =
           (let remaining = maxEdges - int (length (fst (generateDiagram_edges maxEdges result)))
            in if 0 < remaining \<and> remaining < int (length (handlerDeclarations result))
               then take (nat remaining) (handlerDeclarations result)
               else handlerDeclarations result) \<and>
         (maxEdges = 3 \<and> length (busUsages result) = 4 \<and> length (handlerDeclarations result) = 2
            \<longrightarrow> generateDiagram_edges maxEdges result =
                  (take 1 (busUsages result), handlerDeclarations result))"
  using assms by (simp add: generateDiagram_edges_int Let_def)

theorem budget_truncation_witness:
  "generateDiagram_edges 3
     \<lparr>busUsages = [sampleUsage ''A'' ''E1'', sampleUsage ''A'' ''E2'', sampleUsage ''B'' ''E3'',
                   sampleUsage ''C'' ''E4''],
      handlerDeclarations = [sampleHandler ''H1'' ''E1'', sampleHandler ''H2'' ''E2'']\<rparr> =
   ([sampleUsage ''A'' ''E1''], [sampleHandler ''H1'' ''E1'', sampleHandler ''H2'' ''E2''])"
proof -
  let ?r = "\<lparr>busUsages = [sampleUsage ''A'' ''E1'', sampleUsage ''A'' ''E2'',
                sampleUsage ''B'' ''E3'', sampleUsage ''C'' ''E4''],
      handlerDeclarations = [sampleHandler ''H1'' ''E1'', sampleHandler ''H2'' ''E2'']\<rparr>"
  have positive: "(0::int) < 3" by simp
  have exceeds: "3 < int (length (busUsages ?r)) + int (length (handlerDeclarations ?r))"
    by simp
  have scenario: "(3::int) = 3 \<and> length (busUsages ?r) = 4 \<and> length (handlerDeclarations ?r) = 2"
    by simp
  from budget_truncation [OF positive exceeds, THEN conjunct2, THEN conjunct2, THEN mp, OF scenario]
  show ?thesis by simp
qed

text \<open>
  Claim C6. Truncating the truncated pair of lists again, with the same budget, changes
  nothing (for every budget, positive or not).
\<close>

theorem truncation_idempotent:
  "generateDiagram_edges maxEdges
     \<lparr>busUsages = fst (generateDiagram_edges maxEdges result),
      handlerDeclarations = snd (generateDiagram_edges maxEdges result)\<rparr> =
   generateDiagram_edges maxEdges result"
proof (cases "0 < maxEdges \<and>
    maxEdges < int (length (busUsages result)) + int (length (handlerDeclarations result))")
  case True
  then have "int (length (fst (generateDiagram_edges maxEdges result))) +
         int (length (snd (generateDiagram_edges maxEdges result))) \<le> maxEdges"
    using generateDiagram_edges_within_budget by blast
  then show ?thesis
    by (subst generateDiagram_edges_int) simp
next
  case False
  have unchanged: "generateDiagram_edges maxEdges result = (busUsages result, handlerDeclarations result)"
    using False by (subst generateDiagram_edges_int) auto
  have same: "\<lparr>busUsages = busUsages result, handlerDeclarations = handlerDeclarations result\<rparr> = result"
    by simp
  show ?thesis unfolding unchanged fst_conv snd_conv same by (rule refl)
qed

theorem truncation_idempotent_witness:
  "generateDiagram_edges 3
     \<lparr>busUsages = [sampleUsage ''A'' ''E1''],
      handlerDeclarations = [sampleHandler ''H1'' ''E1'', sampleHandler ''H2'' ''E2'']\<rparr> =
   ([sampleUsage ''A'' ''E1''], [sampleHandler ''H1'' ''E1'', sampleHandler ''H2'' ''E2''])"
proof -
  have once: "generateDiagram_edges 3
     \<lparr>busUsages = [sampleUsage ''A'' ''E1'', sampleUsage ''A'' ''E2'', sampleUsage ''B'' ''E3'',
                   sampleUsage ''C'' ''E4''],
      handlerDeclarations = [sampleHandler ''H1'' ''E1'', sampleHandler ''H2'' ''E2'']\<rparr> =
    ([sampleUsage ''A'' ''E1''], [sampleHandler ''H1'' ''E1'', sampleHandler ''H2'' ''E2''])"
    by (simp add: generateDiagram_edges_int)
  from truncation_idempotent [of 3
     "\<lparr>busUsages = [sampleUsage ''A'' ''E1'', sampleUsage ''A'' ''E2'', sampleUsage ''B'' ''E3'',
                   sampleUsage ''C'' ''E4''],
      handlerDeclarations = [sampleHandler ''H1'' ''E1'', sampleHandler ''H2'' ''E2'']\<rparr>"]
  show ?thesis unfolding once fst_conv snd_conv .
qed

section \<open>Bus-usage extraction\<close>

lemma findParentClass_find:
  "findParentClass chain =
    (case find isNamedClass chain of
       Some (ClassDeclaration (Some c)) \<Rightarrow> Some c
     | _ \<Rightarrow> None)"
proof (induction chain)
  case Nil
  show ?case by simp
next
  case (Cons current parents)
  then show ?case by (cases current rule: isNamedClass.cases) simp_all
qed

lemma findMethodName_find:
  "findMethodName chain =
    (case find isNamedMethod chain of
       Some (MethodDeclaration (Some (Identifier t))) \<Rightarrow> Some t
     | _ \<Rightarrow> None)"
proof (induction chain)
  case Nil
  show ?case by simp
next
  case (Cons current parents)
  then show ?case by (cases current rule: isNamedMethod.cases) simp_all
qed

lemma processPotentialBusUsage_recognized:
  assumes "methodName' \<in> {''publish'', ''execute'', ''dispatch''}"
    and "determineBusType (getObjectName receiver) = Some b"
  shows "processPotentialBusUsage
           (CallExpression (PropertyAccessExpression receiver (Identifier methodName')) typeArguments arguments)
           parents pos filePath result =
         result\<lparr>busUsages := busUsages result @
           [\<lparr>sourceFile = filePath,
             className = (case findParentClass (OtherNode # parents) of
                            None \<Rightarrow> ''Unknown''
                          | Some n \<Rightarrow> if n = [] then ''Unknown'' else n),
             eventType = extractTypeArgument
               (CallExpression (PropertyAccessExpression receiver (Identifier methodName')) typeArguments arguments),
             position = pos,
             methodName = findMethodName (OtherNode # parents),
             busType = b\<rparr>]\<rparr>"
  using assms unfolding processPotentialBusUsage_def by (auto simp: Let_def)

text \<open>
  Claim C5, as amended. The class lookup returns the name of the first class declaration on
  the chain that has a name. The method lookup stops at the first method declaration on the
  chain and returns its name when that name is an identifier, and nothing otherwise. The edge
  of a recognized call carries the result of the method lookup as it is (absent when there is
  none) and the class name, \<open>Unknown\<close> when the class lookup finds nothing.
\<close>

theorem enclosing_lookups:
  "findParentClass chain =
     (case find isNamedClass chain of
        Some (ClassDeclaration (Some c)) \<Rightarrow> Some c
      | _ \<Rightarrow> None) \<and>
   findMethodName chain =
     (case find isNamedMethod chain of
        Some (MethodDeclaration (Some (Identifier t))) \<Rightarrow> Some t
      | _ \<Rightarrow> None) \<and>
   (methodName' \<in> {''publish'', ''execute'', ''dispatch''} \<and>
    determineBusType (getObjectName receiver) = Some b \<longrightarrow>
      (let edge = last (busUsages (processPotentialBusUsage
             (CallExpression (PropertyAccessExpression receiver (Identifier methodName')) typeArguments arguments)
             parents pos filePath result))
       in methodName edge = findMethodName (OtherNode # parents) \<and>
          className edge =
            (case findParentClass (OtherNode # parents) of
               None \<Rightarrow> ''Unknown''
             | Some c \<Rightarrow> if c = [] then ''Unknown'' else c)))"
proof (intro conjI impI)
  show "findParentClass chain =
     (case find isNamedClass chain of
        Some (ClassDeclaration (Some c)) \<Rightarrow> Some c
      | _ \<Rightarrow> None)"
    by (rule findParentClass_find)
  show "findMethodName chain =
     (case find isNamedMethod chain of
        Some (MethodDeclaration (Some (Identifier t))) \<Rightarrow> Some t
      | _ \<Rightarrow> None)"
    by (rule findMethodName_find)
next
  assume "methodName' \<in> {''publish'', ''execute'', ''dispatch''} \<and>
    determineBusType (getObjectName receiver) = Some b"
  then show "let edge = last (busUsages (processPotentialBusUsage
             (CallExpression (PropertyAccessExpression receiver (Identifier methodName')) typeArguments arguments)
             parents pos filePath result))
       in methodName edge = findMethodName (OtherNode # parents) \<and>
          className edge =
            (case findParentClass (OtherNode # parents) of
               None \<Rightarrow> ''Unknown''
             | Some c \<Rightarrow> if c = [] then ''Unknown'' else c)"
    by (simp add: processPotentialBusUsage_recognized Let_def)
qed

theorem enclosing_lookups_witness:
  "findParentClass nestedMethodChain = Some ''OrderService'' \<and>
   findMethodName nestedMethodChain = None \<and>
   methodName (last (busUsages (processPotentialBusUsage
       (CallExpression
          (PropertyAccessExpression (PropertyAccessExpression ThisKeyword (Identifier ''commandBus''))
             (Identifier ''execute''))
          None [NewExpression (Identifier ''CreateOrderCommand'') []])
       (tl nestedMethodChain) \<lparr>line = 3, character = 8\<rparr> ''src/order.service.ts''
       \<lparr>busUsages = [], handlerDeclarations = []\<rparr>))) = None \<and>
   className (last (busUsages (processPotentialBusUsage
       (CallExpression
          (PropertyAccessExpression (PropertyAccessExpression ThisKeyword (Identifier ''commandBus''))
             (Identifier ''execute''))
          None [NewExpression (Identifier ''CreateOrderCommand'') []])
       (tl nestedMethodChain) \<lparr>line = 3, character = 8\<rparr> ''src/order.service.ts''
       \<lparr>busUsages = [], handlerDeclarations = []\<rparr>))) = ''OrderService''"
proof -
  have bus: "determineBusType
      (getObjectName (PropertyAccessExpression ThisKeyword (Identifier ''commandBus''))) =
      Some CommandBus"
    by code_simp
  have name: "''execute'' \<in> {''publish'', ''execute'', ''dispatch''}"
    by simp
  note lookups = enclosing_lookups [of nestedMethodChain "''execute''"
      "PropertyAccessExpression ThisKeyword (Identifier ''commandBus'')" CommandBus
      None "[NewExpression (Identifier ''CreateOrderCommand'') []]"
      "tl nestedMethodChain" "\<lparr>line = 3, character = 8\<rparr>" "''src/order.service.ts''"
      "\<lparr>busUsages = [], handlerDeclarations = []\<rparr>"]
  from lookups [THEN conjunct2, THEN conjunct2, THEN mp, OF conjI [OF name bus]]
  show ?thesis
    by (simp add: nestedMethodChain_def Let_def)
qed

text \<open>
  Claim C5 as stated fails: below a method with a string-literal name that is nested in a
  method with an identifier name, the lookup returns nothing, where a walk to the first method
  declaration with an identifier name returns \<open>outer\<close>.
\<close>

theorem enclosing_method_counterexample:
  "findMethodName nestedMethodChain = None \<and>
   spec_findMethodName nestedMethodChain = Some ''outer''"
  by (simp add: nestedMethodChain_def spec_findMethodName_def)

lemma includesString_iff:
  "includesString s w = (\<exists>i\<le>length s. take (length w) (drop i s) = w)"
proof (induction s)
  case Nil
  show ?case by auto
next
  case (Cons c cs)
  have "(\<exists>i\<le>length (c # cs). take (length w) (drop i (c # cs)) = w) =
        (take (length w) (c # cs) = w \<or> (\<exists>j\<le>length cs. take (length w) (drop j cs) = w))"
  proof
    assume "\<exists>i\<le>length (c # cs). take (length w) (drop i (c # cs)) = w"
    then obtain i where i: "i \<le> length (c # cs)" "take (length w) (drop i (c # cs)) = w"
      by blast
    show "take (length w) (c # cs) = w \<or> (\<exists>j\<le>length cs. take (length w) (drop j cs) = w)"
    proof (cases i)
      case 0
      with i show ?thesis by simp
    next
      case (Suc j)
      with i have "j \<le> length cs \<and> take (length w) (drop j cs) = w" by simp
      then show ?thesis by blast
    qed
  next
    assume "take (length w) (c # cs) = w \<or> (\<exists>j\<le>length cs. take (length w) (drop j cs) = w)"
    then show "\<exists>i\<le>length (c # cs). take (length w) (drop i (c # cs)) = w"
    proof
      assume "take (length w) (c # cs) = w"
      then have "0 \<le> length (c # cs) \<and> take (length w) (drop 0 (c # cs)) = w" by simp
      then show ?thesis by blast
    next
      assume "\<exists>j\<le>length cs. take (length w) (drop j cs) = w"
      then obtain j where "j \<le> length cs" "take (length w) (drop j cs) = w" by blast
      then have "Suc j \<le> length (c # cs) \<and> take (length w) (drop (Suc j) (c # cs)) = w" by simp
      then show ?thesis by blast
    qed
  qed
  with Cons show ?case by (simp add: startsWith_def)
qed

lemma includes_lower_iff:
  assumes "toLowerCase w = w"
  shows "includesString (toLowerCase s) w = containsIgnoreCase s w"
proof -
  have "includesString (toLowerCase s) w =
        (\<exists>i\<le>length s. take (length w) (drop i (toLowerCase s)) = w)"
    by (simp add: includesString_iff toLowerCase_def)
  also have "\<dots> = (\<exists>i\<le>length s. toLowerCase (take (length w) (drop i s)) = toLowerCase w)"
    by (simp add: assms) (simp add: toLowerCase_def take_map drop_map)
  also have "\<dots> = containsIgnoreCase s w"
    unfolding containsIgnoreCase_def list_ex_iff set_upt
    by (auto simp: less_Suc_eq_le)
  finally show ?thesis .
qed

lemma lower_words:
  "toLowerCase ''event'' = ''event''" "toLowerCase ''query'' = ''query''"
  "toLowerCase ''command'' = ''command''" "toLowerCase ''bus'' = ''bus''"
  by code_simp+

lemma determineBusType_ignoring_case:
  "determineBusType name =
    (if containsIgnoreCase name ''event'' \<and> containsIgnoreCase name ''bus'' then Some EventBus
     else if containsIgnoreCase name ''query'' \<and> containsIgnoreCase name ''bus'' then Some QueryBus
     else if containsIgnoreCase name ''command'' \<and> containsIgnoreCase name ''bus'' then Some CommandBus
     else None)"
  unfolding determineBusType_def Let_def
  by (simp only: includes_lower_iff [OF lower_words(1)] includes_lower_iff [OF lower_words(2)]
      includes_lower_iff [OF lower_words(3)] includes_lower_iff [OF lower_words(4)])

lemma getObjectName_empty:
  assumes "\<forall>t. receiver \<noteq> Identifier t"
    and "\<forall>e t. receiver \<noteq> PropertyAccessExpression e (Identifier t)"
  shows "getObjectName receiver = []"
proof (cases receiver)
  case (PropertyAccessExpression e n)
  with assms(2) show ?thesis by (cases n) (simp_all add: getObjectName_def)
qed (use assms(1) in \<open>simp_all add: getObjectName_def\<close>)

lemma determineBusType_empty: "determineBusType [] = None"
  by (simp add: determineBusType_def toLowerCase_def)

text \<open>
  Claim C10. A receiver that is neither an identifier nor a property access with an
  identifier as property has the empty string as name, for which no bus type is found, and
  the call leaves the result as it is, whatever the method name.
\<close>

theorem unnamed_receiver_skipped:
  assumes "\<forall>t. receiver \<noteq> Identifier t"
    and "\<forall>e t. receiver \<noteq> PropertyAccessExpression e (Identifier t)"
  shows "getObjectName receiver = [] \<and>
         determineBusType (getObjectName receiver) = None \<and>
         processPotentialBusUsage
           (CallExpression (PropertyAccessExpression receiver (Identifier methodName')) typeArguments arguments)
           parents pos filePath result = result"
proof -
  have name: "getObjectName receiver = []"
    using assms by (rule getObjectName_empty)
  then have none: "determineBusType (getObjectName receiver) = None"
    by (simp add: determineBusType_empty)
  then have "processPotentialBusUsage
           (CallExpression (PropertyAccessExpression receiver (Identifier methodName')) typeArguments arguments)
           parents pos filePath result = result"
    by (simp add: processPotentialBusUsage_def)
  with name none show ?thesis by simp
qed

theorem unnamed_receiver_skipped_witness:
  "getObjectName (CallExpr (CallExpression (Identifier ''getCommandBus'') None [])) = [] \<and>
   determineBusType (getObjectName (CallExpr (CallExpression (Identifier ''getCommandBus'') None []))) = None \<and>
   processPotentialBusUsage
     (CallExpression
        (PropertyAccessExpression (CallExpr (CallExpression (Identifier ''getCommandBus'') None []))
           (Identifier ''execute''))
        None [NewExpression (Identifier ''CreateOrderCommand'') []])
     [] \<lparr>line = 0, character = 0\<rparr> ''src/main.ts'' \<lparr>busUsages = [], handlerDeclarations = []\<rparr> =
   \<lparr>busUsages = [], handlerDeclarations = []\<rparr>"
proof -
  have a: "\<forall>t. CallExpr (CallExpression (Identifier ''getCommandBus'') None []) \<noteq> Identifier t"
    by simp
  have b: "\<forall>e t. CallExpr (CallExpression (Identifier ''getCommandBus'') None []) \<noteq>
      PropertyAccessExpression e (Identifier t)"
    by simp
  show ?thesis
    by (rule unnamed_receiver_skipped [OF a b])
qed

lemma extractTypeArgument_explicit:
  "extractTypeArgument (CallExpression callee (Some (TypeNode t # others)) arguments) = t"
  by (simp add: extractTypeArgument_def getText_def)

lemma extractTypeArgument_arguments:
  assumes "typeArguments = None \<or> typeArguments = Some []"
  shows "extractTypeArgument (CallExpression callee typeArguments arguments) =
    (case arguments of
       [] \<Rightarrow> ''Unknown''
     | firstArg # _ \<Rightarrow>
         (case firstArg of
            NewExpression (Identifier t) _ \<Rightarrow> t
          | Identifier t \<Rightarrow> t
          | PropertyAccessExpression _ (Identifier t) \<Rightarrow> t
          | _ \<Rightarrow> ''Unknown''))"
  using assms by (auto simp: extractTypeArgument_def)

lemma extractTypeArgument_other:
  assumes "typeArguments = None \<or> typeArguments = Some []"
    and "\<forall>i a. firstArg \<noteq> NewExpression (Identifier i) a"
    and "\<forall>i. firstArg \<noteq> Identifier i"
    and "\<forall>e i. firstArg \<noteq> PropertyAccessExpression e (Identifier i)"
  shows "extractTypeArgument (CallExpression callee typeArguments (firstArg # rest)) = ''Unknown''"
proof -
  have "(case firstArg of
            NewExpression (Identifier t) _ \<Rightarrow> t
          | Identifier t \<Rightarrow> t
          | PropertyAccessExpression _ (Identifier t) \<Rightarrow> t
          | _ \<Rightarrow> ''Unknown'') = ''Unknown''"
  proof (cases firstArg)
    case (NewExpression c a)
    with assms(2) show ?thesis by (cases c) simp_all
  next
    case (PropertyAccessExpression e n)
    with assms(4) show ?thesis by (cases n) simp_all
  qed (use assms(3) in simp_all)
  then show ?thesis
    by (simp add: extractTypeArgument_arguments [OF assms(1)])
qed

lemma commandBus_type:
  "determineBusType (getObjectName (PropertyAccessExpression ThisKeyword (Identifier ''commandBus''))) =
     Some CommandBus"
  by code_simp

text \<open>
  Claim C3. The event type of a call: the text of the first type argument when there is one;
  otherwise, by the first argument, the callee of a \<open>new\<close> expression when it is an identifier,
  the identifier itself, or the property of a property access when it is an identifier;
  \<open>Unknown\<close> when there is no argument or the first one has none of these forms. The edge of a
  recognized call records that event type, and scenario 1 yields the expected edge.
\<close>

theorem event_type_inference:
  "extractTypeArgument (CallExpression callee (Some (TypeNode t # others)) arguments) = t \<and>
   (typeArguments = None \<or> typeArguments = Some [] \<longrightarrow>
      extractTypeArgument
        (CallExpression callee typeArguments (NewExpression (Identifier t) newArgs # rest)) = t \<and>
      extractTypeArgument (CallExpression callee typeArguments (Identifier t # rest)) = t \<and>
      extractTypeArgument
        (CallExpression callee typeArguments (PropertyAccessExpression e (Identifier t) # rest)) = t \<and>
      extractTypeArgument (CallExpression callee typeArguments []) = ''Unknown'' \<and>
      ((\<forall>i a. firstArg \<noteq> NewExpression (Identifier i) a) \<and>
       (\<forall>i. firstArg \<noteq> Identifier i) \<and>
       (\<forall>e' i. firstArg \<noteq> PropertyAccessExpression e' (Identifier i)) \<longrightarrow>
         extractTypeArgument (CallExpression callee typeArguments (firstArg # rest)) = ''Unknown'')) \<and>
   (methodName' \<in> {''publish'', ''execute'', ''dispatch''} \<and>
    determineBusType (getObjectName receiver) = Some b \<longrightarrow>
      eventType (last (busUsages (processPotentialBusUsage
        (CallExpression (PropertyAccessExpression receiver (Identifier methodName')) typeArguments arguments)
        parents pos filePath result))) =
      extractTypeArgument
        (CallExpression (PropertyAccessExpression receiver (Identifier methodName')) typeArguments arguments)) \<and>
   processPotentialBusUsage executeCreateOrder placeOrderParents pos filePath
     \<lparr>busUsages = [], handlerDeclarations = []\<rparr> =
     \<lparr>busUsages = [\<lparr>sourceFile = filePath, className = ''OrderService'',
         eventType = ''CreateOrderCommand'', position = pos,
         methodName = Some ''placeOrder'', busType = CommandBus\<rparr>],
      handlerDeclarations = []\<rparr>"
proof (intro conjI impI)
  show "extractTypeArgument (CallExpression callee (Some (TypeNode t # others)) arguments) = t"
    by (rule extractTypeArgument_explicit)
next
  assume none: "typeArguments = None \<or> typeArguments = Some []"
  show "extractTypeArgument
        (CallExpression callee typeArguments (NewExpression (Identifier t) newArgs # rest)) = t"
    by (simp add: extractTypeArgument_arguments [OF none])
  show "extractTypeArgument (CallExpression callee typeArguments (Identifier t # rest)) = t"
    by (simp add: extractTypeArgument_arguments [OF none])
  show "extractTypeArgument
        (CallExpression callee typeArguments (PropertyAccessExpression e (Identifier t) # rest)) = t"
    by (simp add: extractTypeArgument_arguments [OF none])
  show "extractTypeArgument (CallExpression callee typeArguments []) = ''Unknown''"
    by (simp add: extractTypeArgument_arguments [OF none])
  assume "(\<forall>i a. firstArg \<noteq> NewExpression (Identifier i) a) \<and>
       (\<forall>i. firstArg \<noteq> Identifier i) \<and>
       (\<forall>e' i. firstArg \<noteq> PropertyAccessExpression e' (Identifier i))"
  then show "extractTypeArgument (CallExpression callee typeArguments (firstArg # rest)) = ''Unknown''"
    using extractTypeArgument_other [OF none] by blast
next
  assume "methodName' \<in> {''publish'', ''execute'', ''dispatch''} \<and>
    determineBusType (getObjectName receiver) = Some b"
  then show "eventType (last (busUsages (processPotentialBusUsage
        (CallExpression (PropertyAccessExpression receiver (Identifier methodName')) typeArguments arguments)
        parents pos filePath result))) =
      extractTypeArgument
        (CallExpression (PropertyAccessExpression receiver (Identifier methodName')) typeArguments arguments)"
    by (simp add: processPotentialBusUsage_recognized)
next
  show "processPotentialBusUsage executeCreateOrder placeOrderParents pos filePath
     \<lparr>busUsages = [], handlerDeclarations = []\<rparr> =
     \<lparr>busUsages = [\<lparr>sourceFile = filePath, className = ''OrderService'',
         eventType = ''CreateOrderCommand'', position = pos,
         methodName = Some ''placeOrder'', busType = CommandBus\<rparr>],
      handlerDeclarations = []\<rparr>"
    unfolding executeCreateOrder_def placeOrderParents_def
    by (simp add: processPotentialBusUsage_recognized [OF _ commandBus_type]
        extractTypeArgument_def)
qed

theorem event_type_inference_witness:
  "extractTypeArgument
     (CallExpression (Identifier ''publish'') (Some [TypeNode ''OrderCreatedEvent''])
        [Identifier ''payload'']) = ''OrderCreatedEvent'' \<and>
   extractTypeArgument
     (CallExpression (Identifier ''publish'') None [Identifier ''OrderCreatedEvent'']) =
     ''OrderCreatedEvent'' \<and>
   extractTypeArgument
     (CallExpression (Identifier ''publish'') None [StringLiteral ''order'']) = ''Unknown'' \<and>
   eventType (last (busUsages (processPotentialBusUsage
     (CallExpression
        (PropertyAccessExpression (PropertyAccessExpression ThisKeyword (Identifier ''commandBus''))
           (Identifier ''execute''))
        None [Identifier ''payload''])
     placeOrderParents \<lparr>line = 3, character = 4\<rparr> ''src/order.service.ts''
     \<lparr>busUsages = [], handlerDeclarations = []\<rparr>))) = ''payload''"
proof -
  note inference = event_type_inference [where callee = "Identifier ''publish''"
      and t = "''OrderCreatedEvent''" and others = "[]" and arguments = "[Identifier ''payload'']"
      and typeArguments = None and rest = "[]" and firstArg = "StringLiteral ''order''"
      and methodName' = "''execute''"
      and receiver = "PropertyAccessExpression ThisKeyword (Identifier ''commandBus'')"
      and b = CommandBus and parents = placeOrderParents
      and pos = "\<lparr>line = 3, character = 4\<rparr>" and filePath = "''src/order.service.ts''"
      and result = "\<lparr>busUsages = [], handlerDeclarations = []\<rparr>"]
  have none: "(None :: TypeNode list option) = None \<or> (None :: TypeNode list option) = Some []"
    by simp
  have other: "(\<forall>i a. StringLiteral ''order'' \<noteq> NewExpression (Identifier i) a) \<and>
       (\<forall>i. StringLiteral ''order'' \<noteq> Identifier i) \<and>
       (\<forall>e' i. StringLiteral ''order'' \<noteq> PropertyAccessExpression e' (Identifier i))"
    by simp
  have recognized: "''execute'' \<in> {''publish'', ''execute'', ''dispatch''} \<and>
      determineBusType (getObjectName (PropertyAccessExpression ThisKeyword (Identifier ''commandBus''))) =
      Some CommandBus"
    using commandBus_type by simp
  note arg_cases = inference [THEN conjunct2, THEN conjunct1, THEN mp, OF none]
  have explicit_case: "extractTypeArgument
     (CallExpression (Identifier ''publish'') (Some [TypeNode ''OrderCreatedEvent''])
        [Identifier ''payload'']) = ''OrderCreatedEvent''"
    by (rule inference [THEN conjunct1])
  have ident_case: "extractTypeArgument
     (CallExpression (Identifier ''publish'') None [Identifier ''OrderCreatedEvent'']) =
     ''OrderCreatedEvent''"
    by (rule arg_cases [THEN conjunct2, THEN conjunct1])
  have unknown_case: "extractTypeArgument
     (CallExpression (Identifier ''publish'') None [StringLiteral ''order'']) = ''Unknown''"
    by (rule arg_cases [THEN conjunct2, THEN conjunct2, THEN conjunct2, THEN conjunct2,
          THEN mp, OF other])
  have recorded: "eventType (last (busUsages (processPotentialBusUsage
     (CallExpression
        (PropertyAccessExpression (PropertyAccessExpression ThisKeyword (Identifier ''commandBus''))
           (Identifier ''execute''))
        None [Identifier ''payload''])
     placeOrderParents \<lparr>line = 3, character = 4\<rparr> ''src/order.service.ts''
     \<lparr>busUsages = [], handlerDeclarations = []\<rparr>))) = ''payload''"
    using inference [THEN conjunct2, THEN conjunct2, THEN conjunct1, THEN mp, OF recognized]
    by (simp add: extractTypeArgument_def)
  from explicit_case ident_case unknown_case recorded show ?thesis by blast
qed

lemma processPotentialBusUsage_method:
  "processPotentialBusUsage
     (CallExpression (PropertyAccessExpression receiver (Identifier methodName')) typeArguments arguments)
     parents pos filePath result =
   (if methodName' = ''publish'' \<or> methodName' = ''execute'' \<or> methodName' = ''dispatch''
    then (case determineBusType (getObjectName receiver) of
            None \<Rightarrow> result
          | Some b \<Rightarrow>
              result\<lparr>busUsages := busUsages result @
                [\<lparr>sourceFile = filePath,
                  className = (case findParentClass (OtherNode # parents) of
                                 None \<Rightarrow> ''Unknown''
                               | Some n \<Rightarrow> if n = [] then ''Unknown'' else n),
                  eventType = extractTypeArgument
                    (CallExpression (PropertyAccessExpression receiver (Identifier methodName'))
                       typeArguments arguments),
                  position = pos,
                  methodName = findMethodName (OtherNode # parents),
                  busType = b\<rparr>]\<rparr>)
    else result)"
  unfolding processPotentialBusUsage_def by (auto simp: Let_def split: option.splits)

lemma processPotentialBusUsage_other_name:
  assumes "\<forall>t. name \<noteq> Identifier t"
  shows "processPotentialBusUsage
     (CallExpression (PropertyAccessExpression receiver name) typeArguments arguments)
     parents pos filePath result = result"
  using assms unfolding processPotentialBusUsage_def by (cases name) simp_all

lemma getObjectName_forms:
  "getObjectName (Identifier objectName) = objectName"
  "getObjectName (PropertyAccessExpression base (Identifier objectName)) = objectName"
  by (simp_all add: getObjectName_def)

text \<open>
  Claim C4. For a call whose callee is a property access: with a method name other than
  \<open>publish\<close>, \<open>execute\<close> and \<open>dispatch\<close> (or a name that is no identifier) the result is
  unchanged. Otherwise the receiver name is the text of the receiver when it is an
  identifier, and of its property when it is a property access with an identifier as
  property; the bus type comes from that name by the case-insensitive substring tests, in
  the order event, query, command (each together with bus); one edge of that bus type is
  appended, and when no test succeeds the result is unchanged.
\<close>

theorem bus_type_inference:
  "determineBusType objectName =
     (if containsIgnoreCase objectName ''event'' \<and> containsIgnoreCase objectName ''bus''
        then Some EventBus
      else if containsIgnoreCase objectName ''query'' \<and> containsIgnoreCase objectName ''bus''
        then Some QueryBus
      else if containsIgnoreCase objectName ''command'' \<and> containsIgnoreCase objectName ''bus''
        then Some CommandBus
      else None) \<and>
   (receiver = Identifier objectName \<or>
    receiver = PropertyAccessExpression base (Identifier objectName) \<longrightarrow>
      processPotentialBusUsage
        (CallExpression (PropertyAccessExpression receiver (Identifier methodName')) typeArguments arguments)
        parents pos filePath result =
        (if methodName' = ''publish'' \<or> methodName' = ''execute'' \<or> methodName' = ''dispatch''
         then
           (let recorded = (\<lambda>b.
                  result\<lparr>busUsages := busUsages result @
                    [\<lparr>sourceFile = filePath,
                      className = (case findParentClass (OtherNode # parents) of
                                     None \<Rightarrow> ''Unknown''
                                   | Some n \<Rightarrow> if n = [] then ''Unknown'' else n),
                      eventType = extractTypeArgument
                        (CallExpression (PropertyAccessExpression receiver (Identifier methodName'))
                           typeArguments arguments),
                      position = pos,
                      methodName = findMethodName (OtherNode # parents),
                      busType = b\<rparr>]\<rparr>)
            in if containsIgnoreCase objectName ''event'' \<and> containsIgnoreCase objectName ''bus''
                 then recorded EventBus
               else if containsIgnoreCase objectName ''query'' \<and> containsIgnoreCase objectName ''bus''
                 then recorded QueryBus
               else if containsIgnoreCase objectName ''command'' \<and> containsIgnoreCase objectName ''bus''
                 then recorded CommandBus
               else result)
         else result)) \<and>
   ((\<forall>t. name \<noteq> Identifier t) \<longrightarrow>
      processPotentialBusUsage
        (CallExpression (PropertyAccessExpression receiver name) typeArguments arguments)
        parents pos filePath result = result)"
proof (intro conjI impI)
  show "determineBusType objectName =
     (if containsIgnoreCase objectName ''event'' \<and> containsIgnoreCase objectName ''bus''
        then Some EventBus
      else if containsIgnoreCase objectName ''query'' \<and> containsIgnoreCase objectName ''bus''
        then Some QueryBus
      else if containsIgnoreCase objectName ''command'' \<and> containsIgnoreCase objectName ''bus''
        then Some CommandBus
      else None)"
    by (rule determineBusType_ignoring_case)
next
  assume "receiver = Identifier objectName \<or>
    receiver = PropertyAccessExpression base (Identifier objectName)"
  then have name: "getObjectName receiver = objectName"
    by (auto simp: getObjectName_forms)
  show "processPotentialBusUsage
        (CallExpression (PropertyAccessExpression receiver (Identifier methodName')) typeArguments arguments)
        parents pos filePath result =
        (if methodName' = ''publish'' \<or> methodName' = ''execute'' \<or> methodName' = ''dispatch''
         then
           (let recorded = (\<lambda>b.
                  result\<lparr>busUsages := busUsages result @
                    [\<lparr>sourceFile = filePath,
                      className = (case findParentClass (OtherNode # parents) of
                                     None \<Rightarrow> ''Unknown''
                                   | Some n \<Rightarrow> if n = [] then ''Unknown'' else n),
                      eventType = extractTypeArgument
                        (CallExpression (PropertyAccessExpression receiver (Identifier methodName'))
                           typeArguments arguments),
                      position = pos,
                      methodName = findMethodName (OtherNode # parents),
                      busType = b\<rparr>]\<rparr>)
            in if containsIgnoreCase objectName ''event'' \<and> containsIgnoreCase objectName ''bus''
                 then recorded EventBus
               else if containsIgnoreCase objectName ''query'' \<and> containsIgnoreCase objectName ''bus''
                 then recorded QueryBus
               else if containsIgnoreCase objectName ''command'' \<and> containsIgnoreCase objectName ''bus''
                 then recorded CommandBus
               else result)
         else result)"
    unfolding processPotentialBusUsage_method name determineBusType_ignoring_case Let_def
    by simp
next
  assume "\<forall>t. name \<noteq> Identifier t"
  then show "processPotentialBusUsage
        (CallExpression (PropertyAccessExpression receiver name) typeArguments arguments)
        parents pos filePath result = result"
    by (rule processPotentialBusUsage_other_name)
qed

lemma scenario_names:
  "containsIgnoreCase ''eventBus'' ''event''" "containsIgnoreCase ''eventBus'' ''bus''"
  "\<not> containsIgnoreCase ''QUERY_BUS'' ''event''" "containsIgnoreCase ''QUERY_BUS'' ''query''"
  "containsIgnoreCase ''QUERY_BUS'' ''bus''"
  "\<not> containsIgnoreCase ''logger'' ''bus''"
  by code_simp+

theorem bus_type_inference_witness:
  "determineBusType ''eventQueryBus'' = Some EventBus \<and>
   determineBusType ''QUERY_COMMAND_BUS'' = Some QueryBus \<and>
   determineBusType ''commandBus'' = Some CommandBus \<and>
   determineBusType ''eventEmitter'' = None \<and>
   processPotentialBusUsage
     (CallExpression
        (PropertyAccessExpression (PropertyAccessExpression ThisKeyword (Identifier ''eventBus''))
           (Identifier ''publish''))
        None [NewExpression (Identifier ''OrderCreatedEvent'') []])
     placeOrderParents \<lparr>line = 4, character = 4\<rparr> ''src/order.service.ts'' emptyResult =
     \<lparr>busUsages = [\<lparr>sourceFile = ''src/order.service.ts'', className = ''OrderService'',
         eventType = ''OrderCreatedEvent'', position = \<lparr>line = 4, character = 4\<rparr>,
         methodName = Some ''placeOrder'', busType = EventBus\<rparr>],
      handlerDeclarations = []\<rparr> \<and>
   processPotentialBusUsage
     (CallExpression (PropertyAccessExpression (Identifier ''QUERY_BUS'') (Identifier ''execute''))
        None [Identifier ''query''])
     [] \<lparr>line = 0, character = 0\<rparr> ''src/main.ts'' emptyResult =
     \<lparr>busUsages = [\<lparr>sourceFile = ''src/main.ts'', className = ''Unknown'',
         eventType = ''query'', position = \<lparr>line = 0, character = 0\<rparr>,
         methodName = None, busType = QueryBus\<rparr>],
      handlerDeclarations = []\<rparr> \<and>
   processPotentialBusUsage
     (CallExpression
        (PropertyAccessExpression (PropertyAccessExpression ThisKeyword (Identifier ''logger''))
           (Identifier ''dispatch''))
        None [Identifier ''x''])
     placeOrderParents \<lparr>line = 4, character = 4\<rparr> ''src/order.service.ts'' emptyResult =
     emptyResult \<and>
   processPotentialBusUsage
     (CallExpression (PropertyAccessExpression (Identifier ''eventBus'') (Identifier ''send''))
        None [Identifier ''x''])
     [] \<lparr>line = 0, character = 0\<rparr> ''src/main.ts'' emptyResult = emptyResult \<and>
   processPotentialBusUsage
     (CallExpression (PropertyAccessExpression (Identifier ''eventBus'') (PrivateIdentifier ''#publish''))
        None [Identifier ''x''])
     [] \<lparr>line = 0, character = 0\<rparr> ''src/main.ts'' emptyResult = emptyResult"
proof -
  have ev: "determineBusType ''eventQueryBus'' = Some EventBus"
    unfolding bus_type_inference [THEN conjunct1] containsIgnoreCase_def by code_simp
  have qu: "determineBusType ''QUERY_COMMAND_BUS'' = Some QueryBus"
    unfolding bus_type_inference [THEN conjunct1] containsIgnoreCase_def by code_simp
  have co: "determineBusType ''commandBus'' = Some CommandBus"
    unfolding bus_type_inference [THEN conjunct1] containsIgnoreCase_def by code_simp
  have no: "determineBusType ''eventEmitter'' = None"
    unfolding bus_type_inference [THEN conjunct1] containsIgnoreCase_def by code_simp
  have property: "PropertyAccessExpression ThisKeyword (Identifier n) = Identifier n \<or>
      PropertyAccessExpression ThisKeyword (Identifier n) =
      PropertyAccessExpression ThisKeyword (Identifier n)" for n
    by simp
  have plain: "Identifier n = Identifier n \<or>
      Identifier n = PropertyAccessExpression ThisKeyword (Identifier n)" for n
    by simp
  have priv_name: "\<forall>t. PrivateIdentifier ''#publish'' \<noteq> Identifier t"
    by simp
  have published: "processPotentialBusUsage
     (CallExpression
        (PropertyAccessExpression (PropertyAccessExpression ThisKeyword (Identifier ''eventBus''))
           (Identifier ''publish''))
        None [NewExpression (Identifier ''OrderCreatedEvent'') []])
     placeOrderParents \<lparr>line = 4, character = 4\<rparr> ''src/order.service.ts'' emptyResult =
     \<lparr>busUsages = [\<lparr>sourceFile = ''src/order.service.ts'', className = ''OrderService'',
         eventType = ''OrderCreatedEvent'', position = \<lparr>line = 4, character = 4\<rparr>,
         methodName = Some ''placeOrder'', busType = EventBus\<rparr>],
      handlerDeclarations = []\<rparr>"
    unfolding bus_type_inference [THEN conjunct2, THEN conjunct1, THEN mp, OF property]
    by (simp add: scenario_names extractTypeArgument_def placeOrderParents_def emptyResult_def)
  have executed: "processPotentialBusUsage
     (CallExpression (PropertyAccessExpression (Identifier ''QUERY_BUS'') (Identifier ''execute''))
        None [Identifier ''query''])
     [] \<lparr>line = 0, character = 0\<rparr> ''src/main.ts'' emptyResult =
     \<lparr>busUsages = [\<lparr>sourceFile = ''src/main.ts'', className = ''Unknown'',
         eventType = ''query'', position = \<lparr>line = 0, character = 0\<rparr>,
         methodName = None, busType = QueryBus\<rparr>],
      handlerDeclarations = []\<rparr>"
    unfolding bus_type_inference [THEN conjunct2, THEN conjunct1, THEN mp, OF plain]
    by (simp add: scenario_names extractTypeArgument_def emptyResult_def)
  have unmatched: "processPotentialBusUsage
     (CallExpression
        (PropertyAccessExpression (PropertyAccessExpression ThisKeyword (Identifier ''logger''))
           (Identifier ''dispatch''))
        None [Identifier ''x''])
     placeOrderParents \<lparr>line = 4, character = 4\<rparr> ''src/order.service.ts'' emptyResult =
     emptyResult"
    unfolding bus_type_inference [THEN conjunct2, THEN conjunct1, THEN mp, OF property]
    by (simp add: scenario_names)
  have send: "processPotentialBusUsage
     (CallExpression (PropertyAccessExpression (Identifier ''eventBus'') (Identifier ''send''))
        None [Identifier ''x''])
     [] \<lparr>line = 0, character = 0\<rparr> ''src/main.ts'' emptyResult = emptyResult"
    unfolding bus_type_inference [THEN conjunct2, THEN conjunct1, THEN mp, OF plain]
    by simp
  have priv: "processPotentialBusUsage
     (CallExpression (PropertyAccessExpression (Identifier ''eventBus'') (PrivateIdentifier ''#publish''))
        None [Identifier ''x''])
     [] \<lparr>line = 0, character = 0\<rparr> ''src/main.ts'' emptyResult = emptyResult"
    by (rule bus_type_inference [THEN conjunct2, THEN conjunct2, THEN mp, OF priv_name])
  from ev qu co no published executed unmatched send priv show ?thesis by blast
qed

section \<open>Handler-declaration extraction\<close>

lemma pathA_push_edge:
  "pathA_push c filePath pos match result =
     result\<lparr>handlerDeclarations := handlerDeclarations result @ [pathA_edge c filePath pos match]\<rparr>"
  by (simp add: pathA_push_def pathA_edge_def Let_def)

lemma fold_pathA_push:
  "fold (pathA_push c filePath pos) matches result =
     result\<lparr>handlerDeclarations :=
       handlerDeclarations result @ map (pathA_edge c filePath pos) matches\<rparr>"
  by (induction matches arbitrary: result) (simp_all add: pathA_push_edge)

lemma pathB_step_cases:
  "pathB_step c filePath pos d result = result \<or>
   (\<exists>e. pathB_step c filePath pos d result =
          result\<lparr>handlerDeclarations := handlerDeclarations result @ [e]\<rparr> \<and>
        className e = c \<and>
        \<not> list_ex (samePair c (handlerType e)) (handlerDeclarations result))"
proof (cases d)
  case (CallExpr call)
  obtain callee typeArguments arguments where call: "call = CallExpression callee typeArguments arguments"
    by (cases call)
  show ?thesis
  proof (cases callee)
    case (Identifier decoratorName)
    show ?thesis
    proof (cases "handlerTypeOfName decoratorName")
      case None
      with CallExpr call Identifier show ?thesis by (simp add: pathB_step_def)
    next
      case (Some h)
      show ?thesis
      proof (cases "list_ex (samePair c h) (handlerDeclarations result)")
        case True
        with CallExpr call Identifier Some show ?thesis
          by (simp add: pathB_step_def samePair_def [abs_def] Let_def)
      next
        case False
        let ?e = "\<lparr>sourceFile = filePath, className = c, eventType = extractTypeArgument call,
                  position = pos, handlerType = h\<rparr>"
        have step: "pathB_step c filePath pos d result =
            result\<lparr>handlerDeclarations := handlerDeclarations result @ [?e]\<rparr>"
          using False CallExpr call Identifier Some
          by (simp add: pathB_step_def samePair_def [abs_def] Let_def)
        have "\<not> list_ex (samePair c (handlerType ?e)) (handlerDeclarations result)"
          using False by simp
        with step show ?thesis
          by (intro disjI2 exI [of _ ?e]) simp
      qed
    qed
  qed (use CallExpr call in \<open>simp_all add: pathB_step_def\<close>)
qed (simp_all add: pathB_step_def)

lemma pathB_step_keeps_pair:
  assumes "list_ex (samePair c h) (handlerDeclarations result)"
  shows "filter (samePair c h) (handlerDeclarations (pathB_step c filePath pos d result)) =
         filter (samePair c h) (handlerDeclarations result) \<and>
         list_ex (samePair c h) (handlerDeclarations (pathB_step c filePath pos d result))"
proof -
  from pathB_step_cases [of c filePath pos d result]
  show ?thesis
  proof
    assume "pathB_step c filePath pos d result = result"
    with assms show ?thesis by simp
  next
    assume "\<exists>e. pathB_step c filePath pos d result =
          result\<lparr>handlerDeclarations := handlerDeclarations result @ [e]\<rparr> \<and>
        className e = c \<and>
        \<not> list_ex (samePair c (handlerType e)) (handlerDeclarations result)"
    then obtain e where e: "pathB_step c filePath pos d result =
          result\<lparr>handlerDeclarations := handlerDeclarations result @ [e]\<rparr>"
      "className e = c" "\<not> list_ex (samePair c (handlerType e)) (handlerDeclarations result)"
      by blast
    from e(3) assms have "handlerType e \<noteq> h" by auto
    then have "\<not> samePair c h e" by (simp add: samePair_def)
    with e(1) assms show ?thesis by simp
  qed
qed

lemma fold_pathB_step_keeps_pair:
  assumes "list_ex (samePair c h) (handlerDeclarations result)"
  shows "filter (samePair c h) (handlerDeclarations (fold (pathB_step c filePath pos) ds result)) =
         filter (samePair c h) (handlerDeclarations result)"
  using assms
proof (induction ds arbitrary: result)
  case Nil
  show ?case by simp
next
  case (Cons d ds)
  from pathB_step_keeps_pair [OF Cons.prems, of filePath pos d]
  have keep: "filter (samePair c h) (handlerDeclarations (pathB_step c filePath pos d result)) =
         filter (samePair c h) (handlerDeclarations result)"
    and ex: "list_ex (samePair c h) (handlerDeclarations (pathB_step c filePath pos d result))"
    by simp_all
  from Cons.IH [OF ex] keep show ?case by simp
qed

lemma processHandlerDeclaration_pair:
  assumes name: "class_name node = Some c"
    and found: "h \<in> fst ` set (matchAllDecorators (class_text node))"
  shows "filter (samePair c h) (handlerDeclarations (processHandlerDeclaration ts node filePath result)) =
         filter (samePair c h) (handlerDeclarations result) @
         map (pathA_edge c filePath (class_position node))
           (filter (\<lambda>m. fst m = h) (matchAllDecorators (class_text node)))"
proof -
  let ?ms = "matchAllDecorators (class_text node)"
  let ?r1 = "fold (pathA_push c filePath (class_position node)) ?ms result"
  have r1: "handlerDeclarations ?r1 =
      handlerDeclarations result @ map (pathA_edge c filePath (class_position node)) ?ms"
    by (simp add: fold_pathA_push)
  have pairA: "samePair c h (pathA_edge c filePath (class_position node) m) = (fst m = h)" for m
    by (simp add: samePair_def pathA_edge_def)
  have filtered: "filter (samePair c h) (handlerDeclarations ?r1) =
      filter (samePair c h) (handlerDeclarations result) @
      map (pathA_edge c filePath (class_position node)) (filter (\<lambda>m. fst m = h) ?ms)"
    unfolding r1 by (simp add: filter_map o_def pairA)
  from found obtain m where m: "m \<in> set ?ms" "fst m = h" by auto
  then have "samePair c h (pathA_edge c filePath (class_position node) m)"
    by (simp add: pairA)
  with m(1) have ex: "list_ex (samePair c h) (handlerDeclarations ?r1)"
    unfolding r1 list_ex_iff by auto
  have "filter (samePair c h) (handlerDeclarations (processHandlerDeclaration ts node filePath result)) =
        filter (samePair c h) (handlerDeclarations ?r1)"
    using fold_pathB_step_keeps_pair [OF ex]
    by (simp add: processHandlerDeclaration_def name Let_def split: option.splits)
  with filtered show ?thesis by simp
qed

text \<open>
  Claim C1, as amended. One step of Path B either leaves the result as it is or appends one
  edge of the class, and it appends only when no edge of the same class name and handler type
  is in the accumulated result. When Path A matched a handler type in the text of the class,
  the edges of that class name and handler type in the final result are those accumulated
  before, followed by one edge for every match of Path A with that handler type, whatever the
  decorators of Path B are. So when Path A matched the handler type exactly once and no such
  edge was accumulated before, the result has exactly one edge of that class name and handler
  type, with the event type of Path A.
\<close>

theorem path_b_reconciliation:
  "(pathB_step c filePath pos d result = result \<or>
    (\<exists>e. pathB_step c filePath pos d result =
           result\<lparr>handlerDeclarations := handlerDeclarations result @ [e]\<rparr> \<and>
         className e = c \<and>
         \<not> list_ex (samePair c (handlerType e)) (handlerDeclarations result))) \<and>
   (class_name node = Some c \<and> h \<in> fst ` set (matchAllDecorators (class_text node)) \<longrightarrow>
      filter (samePair c h)
        (handlerDeclarations (processHandlerDeclaration ts node filePath result)) =
      filter (samePair c h) (handlerDeclarations result) @
      map (pathA_edge c filePath (class_position node))
        (filter (\<lambda>m. fst m = h) (matchAllDecorators (class_text node)))) \<and>
   (class_name node = Some c \<and>
    filter (\<lambda>m. fst m = h) (matchAllDecorators (class_text node)) = [(h, args)] \<and>
    \<not> list_ex (samePair c h) (handlerDeclarations result) \<longrightarrow>
      filter (samePair c h)
        (handlerDeclarations (processHandlerDeclaration ts node filePath result)) =
      [pathA_edge c filePath (class_position node) (h, args)])"
proof (intro conjI impI)
  show "pathB_step c filePath pos d result = result \<or>
    (\<exists>e. pathB_step c filePath pos d result =
           result\<lparr>handlerDeclarations := handlerDeclarations result @ [e]\<rparr> \<and>
         className e = c \<and>
         \<not> list_ex (samePair c (handlerType e)) (handlerDeclarations result))"
    by (rule pathB_step_cases)
next
  assume "class_name node = Some c \<and> h \<in> fst ` set (matchAllDecorators (class_text node))"
  then show "filter (samePair c h)
        (handlerDeclarations (processHandlerDeclaration ts node filePath result)) =
      filter (samePair c h) (handlerDeclarations result) @
      map (pathA_edge c filePath (class_position node))
        (filter (\<lambda>m. fst m = h) (matchAllDecorators (class_text node)))"
    using processHandlerDeclaration_pair by blast
next
  assume a: "class_name node = Some c \<and>
    filter (\<lambda>m. fst m = h) (matchAllDecorators (class_text node)) = [(h, args)] \<and>
    \<not> list_ex (samePair c h) (handlerDeclarations result)"
  then have "(h, args) \<in> set (filter (\<lambda>m. fst m = h) (matchAllDecorators (class_text node)))"
    by simp
  then have "(h, args) \<in> set (matchAllDecorators (class_text node))"
    by simp
  then have found: "h \<in> fst ` set (matchAllDecorators (class_text node))"
    by force
  from a have none: "filter (samePair c h) (handlerDeclarations result) = []"
    by (simp add: list_ex_iff filter_empty_conv)
  from a processHandlerDeclaration_pair [OF _ found, of c ts filePath result] none
  show "filter (samePair c h)
        (handlerDeclarations (processHandlerDeclaration ts node filePath result)) =
      [pathA_edge c filePath (class_position node) (h, args)]"
    by simp
qed

lemma qualifiedHandlerClass_matches:
  "matchAllDecorators (class_text qualifiedHandlerClass) =
     [(CommandHandler, ''commands.CreateOrderCommand'')]"
  by code_simp

lemma qualified_pathA_edge:
  "pathA_edge ''OrderHandler'' ''src/order.handler.ts'' \<lparr>line = 2, character = 0\<rparr>
     (CommandHandler, ''commands.CreateOrderCommand'') =
   \<lparr>sourceFile = ''src/order.handler.ts'', className = ''OrderHandler'',
     eventType = ''commands'', position = \<lparr>line = 2, character = 0\<rparr>,
     handlerType = CommandHandler\<rparr>"
  by code_simp

theorem path_b_reconciliation_witness:
  "filter (samePair ''OrderHandler'' CommandHandler)
     (handlerDeclarations
        (processHandlerDeclaration decoratorApi qualifiedHandlerClass ''src/order.handler.ts''
           emptyResult)) =
   [\<lparr>sourceFile = ''src/order.handler.ts'', className = ''OrderHandler'',
     eventType = ''commands'', position = \<lparr>line = 2, character = 0\<rparr>,
     handlerType = CommandHandler\<rparr>] \<and>
   extractTypeArgument (CallExpression (Identifier ''CommandHandler'') None
       [PropertyAccessExpression (Identifier ''commands'') (Identifier ''CreateOrderCommand'')]) =
     ''CreateOrderCommand''"
proof -
  have hyps: "class_name qualifiedHandlerClass = Some ''OrderHandler'' \<and>
    filter (\<lambda>m. fst m = CommandHandler) (matchAllDecorators (class_text qualifiedHandlerClass)) =
      [(CommandHandler, ''commands.CreateOrderCommand'')] \<and>
    \<not> list_ex (samePair ''OrderHandler'' CommandHandler) (handlerDeclarations emptyResult)"
    unfolding qualifiedHandlerClass_matches
    by (simp add: qualifiedHandlerClass_def emptyResult_def)
  have pos: "class_position qualifiedHandlerClass = \<lparr>line = 2, character = 0\<rparr>"
    by (simp add: qualifiedHandlerClass_def)
  from path_b_reconciliation [THEN conjunct2, THEN conjunct2, THEN mp, OF hyps,
      of decoratorApi "''src/order.handler.ts''"]
  have "filter (samePair ''OrderHandler'' CommandHandler)
     (handlerDeclarations
        (processHandlerDeclaration decoratorApi qualifiedHandlerClass ''src/order.handler.ts''
           emptyResult)) =
   [\<lparr>sourceFile = ''src/order.handler.ts'', className = ''OrderHandler'',
     eventType = ''commands'', position = \<lparr>line = 2, character = 0\<rparr>,
     handlerType = CommandHandler\<rparr>]"
    unfolding pos qualified_pathA_edge .
  moreover have "extractTypeArgument (CallExpression (Identifier ''CommandHandler'') None
       [PropertyAccessExpression (Identifier ''commands'') (Identifier ''CreateOrderCommand'')]) =
     ''CreateOrderCommand''"
    by (simp add: extractTypeArgument_def)
  ultimately show ?thesis by blast
qed

text \<open>
  Claim C1 as stated fails: the pattern of Path A also matches inside a comment of the class
  body. Both paths detect \<open>CommandHandler\<close> for the class, and the result has two edges
  of that class name and handler type.
\<close>

theorem duplicate_suppression_counterexample:
  "matchAllDecorators (class_text commentedHandlerClass) =
     [(CommandHandler, ''CreateOrderCommand''), (CommandHandler, ''LegacyOrderCommand'')] \<and>
   handlerDeclarations
     (fold (pathB_step ''OrderHandler'' ''src/order.handler.ts'' \<lparr>line = 2, character = 0\<rparr>)
        (the (class_decorators commentedHandlerClass)) emptyResult) =
     [\<lparr>sourceFile = ''src/order.handler.ts'', className = ''OrderHandler'',
       eventType = ''CreateOrderCommand'', position = \<lparr>line = 2, character = 0\<rparr>,
       handlerType = CommandHandler\<rparr>] \<and>
   handlerDeclarations
     (processHandlerDeclaration decoratorApi commentedHandlerClass ''src/order.handler.ts''
        emptyResult) =
     [\<lparr>sourceFile = ''src/order.handler.ts'', className = ''OrderHandler'',
       eventType = ''CreateOrderCommand'', position = \<lparr>line = 2, character = 0\<rparr>,
       handlerType = CommandHandler\<rparr>,
      \<lparr>sourceFile = ''src/order.handler.ts'', className = ''OrderHandler'',
       eventType = ''LegacyOrderCommand'', position = \<lparr>line = 2, character = 0\<rparr>,
       handlerType = CommandHandler\<rparr>]"
  by code_simp

section \<open>Event types of the edges\<close>

lemma extractTypeArgument_nonempty:
  assumes "callNoEmptyText node"
  shows "extractTypeArgument node \<noteq> []"
proof (cases node)
  case (CallExpression callee typeArguments arguments)
  show ?thesis
  proof (cases "\<exists>typeArg rest. typeArguments = Some (typeArg # rest)")
    case True
    then obtain typeArg rest where "typeArguments = Some (typeArg # rest)" by blast
    with assms CallExpression show ?thesis
      by (simp add: extractTypeArgument_def)
  next
    case False
    then have none: "typeArguments = None \<or> typeArguments = Some []"
    proof (cases typeArguments)
      case (Some ts)
      with False show ?thesis by (cases ts) simp_all
    qed simp
    show ?thesis
    proof (cases arguments)
      case Nil
      with none CallExpression show ?thesis
        by (auto simp: extractTypeArgument_def)
    next
      case (Cons firstArg rest)
      with assms CallExpression have first: "noEmptyText firstArg" by simp
      have "(case firstArg of
            NewExpression (Identifier t) _ \<Rightarrow> t
          | Identifier t \<Rightarrow> t
          | PropertyAccessExpression _ (Identifier t) \<Rightarrow> t
          | _ \<Rightarrow> ''Unknown'') \<noteq> []"
      proof (cases firstArg)
        case (NewExpression c a)
        with first show ?thesis by (cases c) simp_all
      next
        case (PropertyAccessExpression e n)
        with first show ?thesis by (cases n) simp_all
      qed (use first in simp_all)
      with none CallExpression Cons show ?thesis
        by (auto simp: extractTypeArgument_def)
    qed
  qed
qed

lemma matchClassName_nonempty:
  "matchClassName argsText = Some t \<Longrightarrow> t \<noteq> []"
proof -
  assume m: "matchClassName argsText = Some t"
  then obtain c cs where d: "dropWhile (\<lambda>c. \<not> isWordChar c) argsText = c # cs"
    and t: "t = takeWhile isWordChar (c # cs)"
    by (auto simp: matchClassName_def split: list.splits)
  from d have "c = hd (dropWhile (\<lambda>c. \<not> isWordChar c) argsText)" by simp
  moreover from d have "dropWhile (\<lambda>c. \<not> isWordChar c) argsText \<noteq> []" by simp
  ultimately have "isWordChar c"
    using hd_dropWhile [of "\<lambda>c. \<not> isWordChar c" argsText] by simp
  with t show ?thesis by simp
qed

lemma pathA_edge_nonempty: "eventType (pathA_edge c filePath pos match) \<noteq> []"
  by (auto simp: pathA_edge_def dest: matchClassName_nonempty split: option.splits)

lemma fold_pathA_nonempty:
  assumes "eventTypesNonEmpty result"
  shows "eventTypesNonEmpty (fold (pathA_push c filePath pos) matches result)"
  using assms
  by (auto simp: fold_pathA_push eventTypesNonEmpty_def list_all_iff pathA_edge_nonempty)

lemma pathB_step_nonempty:
  assumes "eventTypesNonEmpty result" and "noEmptyText d"
  shows "eventTypesNonEmpty (pathB_step c filePath pos d result)"
proof (cases d)
  case (CallExpr call)
  with assms(2) have call_ok: "extractTypeArgument call \<noteq> []"
    by (simp add: extractTypeArgument_nonempty)
  obtain callee typeArguments arguments where call: "call = CallExpression callee typeArguments arguments"
    by (cases call)
  from assms(1) call_ok show ?thesis
    unfolding CallExpr pathB_step_def call [symmetric]
    by (simp add: call) (cases callee; simp add: eventTypesNonEmpty_def Let_def call split: option.splits)
qed (use assms(1) in \<open>simp_all add: pathB_step_def\<close>)

lemma fold_pathB_nonempty:
  assumes "eventTypesNonEmpty result" and "list_all noEmptyText ds"
  shows "eventTypesNonEmpty (fold (pathB_step c filePath pos) ds result)"
  using assms
  by (induction ds arbitrary: result) (simp_all add: pathB_step_nonempty)

lemma processHandlerDeclaration_nonempty:
  assumes "eventTypesNonEmpty result" and "decoratorsNoEmptyText node"
  shows "eventTypesNonEmpty (processHandlerDeclaration ts node filePath result)"
  using assms
  by (auto simp: processHandlerDeclaration_def decoratorsNoEmptyText_def Let_def
      intro!: fold_pathB_nonempty fold_pathA_nonempty split: option.splits)

lemma processPotentialBusUsage_nonempty:
  assumes "eventTypesNonEmpty result" and "callNoEmptyText node"
  shows "eventTypesNonEmpty (processPotentialBusUsage node parents pos filePath result)"
proof -
  from assms(2) have ok: "extractTypeArgument node \<noteq> []"
    by (rule extractTypeArgument_nonempty)
  obtain callee typeArguments arguments where node: "node = CallExpression callee typeArguments arguments"
    by (cases node)
  show ?thesis
  proof (cases "\<exists>receiver methodName'. callee = PropertyAccessExpression receiver (Identifier methodName')")
    case True
    then obtain receiver methodName' where
      callee: "callee = PropertyAccessExpression receiver (Identifier methodName')"
      by blast
    from assms(1) ok show ?thesis
      unfolding node callee processPotentialBusUsage_method
      by (auto simp: eventTypesNonEmpty_def split: option.splits)
  next
    case False
    have "processPotentialBusUsage node parents pos filePath result = result"
    proof (cases callee)
      case (PropertyAccessExpression receiver name)
      with False have "\<forall>t. name \<noteq> Identifier t" by simp
      then show ?thesis
        unfolding node PropertyAccessExpression by (rule processPotentialBusUsage_other_name)
    qed (simp_all add: node processPotentialBusUsage_def)
    with assms(1) show ?thesis by simp
  qed
qed

text \<open>
  Claim C9, as amended. Every edge of Path A has a non-empty event type. When the event
  types accumulated so far are non-empty, they stay so after Path A, after a bus-usage call
  whose identifiers and type arguments have non-empty texts, and after a class declaration
  whose decorators have.
\<close>

theorem event_types_nonempty:
  "eventType (pathA_edge c filePath pos match) \<noteq> [] \<and>
   (eventTypesNonEmpty result \<longrightarrow>
      eventTypesNonEmpty (fold (pathA_push c filePath pos) matches result) \<and>
      (callNoEmptyText call \<longrightarrow>
         eventTypesNonEmpty (processPotentialBusUsage call parents pos filePath result)) \<and>
      (decoratorsNoEmptyText node \<longrightarrow>
         eventTypesNonEmpty (processHandlerDeclaration ts node filePath result)))"
  using pathA_edge_nonempty fold_pathA_nonempty processPotentialBusUsage_nonempty
    processHandlerDeclaration_nonempty
  by blast

theorem event_types_nonempty_witness:
  "eventTypesNonEmpty
     (processPotentialBusUsage executeCreateOrder placeOrderParents \<lparr>line = 3, character = 4\<rparr>
        ''src/order.service.ts'' emptyResult) \<and>
   eventTypesNonEmpty
     (processHandlerDeclaration decoratorApi qualifiedHandlerClass ''src/order.service.ts''
        emptyResult)"
proof -
  have start: "eventTypesNonEmpty emptyResult"
    by (simp add: eventTypesNonEmpty_def emptyResult_def)
  have call_ok: "callNoEmptyText executeCreateOrder"
    by (simp add: executeCreateOrder_def)
  have decorators_ok: "decoratorsNoEmptyText qualifiedHandlerClass"
    by (simp add: decoratorsNoEmptyText_def qualifiedHandlerClass_def)
  note all = event_types_nonempty [where pos = "\<lparr>line = 3, character = 4\<rparr>"
      and filePath = "''src/order.service.ts''" and result = emptyResult
      and call = executeCreateOrder and parents = placeOrderParents
      and node = qualifiedHandlerClass and ts = decoratorApi,
      THEN conjunct2, THEN mp, OF start]
  from all [THEN conjunct2, THEN conjunct1, THEN mp, OF call_ok]
    all [THEN conjunct2, THEN conjunct2, THEN mp, OF decorators_ok]
  show ?thesis by blast
qed

text \<open>
  Claim C9 as stated fails: for an identifier with an empty text, the event type of the edge
  is the empty string, not \<open>Unknown\<close>.
\<close>

theorem event_type_empty_counterexample:
  "busUsages
     (processPotentialBusUsage missingNameCall placeOrderParents \<lparr>line = 3, character = 4\<rparr>
        ''src/order.service.ts'' emptyResult) =
   [\<lparr>sourceFile = ''src/order.service.ts'', className = ''OrderService'', eventType = [],
     position = \<lparr>line = 3, character = 4\<rparr>, methodName = Some ''placeOrder'',
     busType = CommandBus\<rparr>] \<and>
   busUsages
     (processPotentialBusUsage missingOperandCall placeOrderParents \<lparr>line = 3, character = 4\<rparr>
        ''src/order.service.ts'' emptyResult) =
   [\<lparr>sourceFile = ''src/order.service.ts'', className = ''OrderService'', eventType = [],
     position = \<lparr>line = 3, character = 4\<rparr>, methodName = Some ''placeOrder'',
     busType = CommandBus\<rparr>]"
  by code_simp

section \<open>Architecture analysis\<close>

lemma map_of_countUp:
  "map_of (countUp k m) = (map_of m)(k \<mapsto> (case map_of m k of None \<Rightarrow> 0 | Some c \<Rightarrow> c) + 1)"
  by (simp add: countUp_def update_conv')

lemma distinct_countUp:
  "distinct (map fst m) \<Longrightarrow> distinct (map fst (countUp k m))"
  by (simp add: countUp_def distinct_update)

lemma keys_countUp: "fst ` set (countUp k m) = insert k (fst ` set m)"
  by (simp add: countUp_def dom_update)

lemma sum_update_present:
  fixes m :: "('k \<times> nat) list"
  shows "map_of m k = Some v \<Longrightarrow>
   sum_list (map snd (AList.update k w m)) + v = sum_list (map snd m) + w"
  by (induction m) (auto split: if_splits)

lemma sum_update_absent:
  fixes m :: "('k \<times> nat) list"
  shows "map_of m k = None \<Longrightarrow>
   sum_list (map snd (AList.update k w m)) = sum_list (map snd m) + w"
  by (induction m) (auto split: if_splits)

lemma sum_countUp: "sum_list (map snd (countUp k m)) = sum_list (map snd m) + 1"
proof (cases "map_of m k")
  case None
  then show ?thesis by (simp add: countUp_def sum_update_absent)
next
  case (Some v)
  from sum_update_present [OF Some, of "v + 1"] Some show ?thesis
    by (simp add: countUp_def)
qed

lemma fold_countUp:
  "map_of (fold (\<lambda>x m. countUp (f x) m) xs m) k =
     (if count_list (map f xs) k = 0 then map_of m k
      else Some ((case map_of m k of None \<Rightarrow> 0 | Some c \<Rightarrow> c) + count_list (map f xs) k))"
proof (induction xs arbitrary: m)
  case Nil
  show ?case by simp
next
  case (Cons x xs)
  show ?case
    by (simp add: Cons.IH map_of_countUp)
qed

lemma distinct_fold_countUp:
  "distinct (map fst m) \<Longrightarrow> distinct (map fst (fold (\<lambda>x m. countUp (f x) m) xs m))"
  by (induction xs arbitrary: m) (simp_all add: distinct_countUp)

lemma keys_fold_countUp:
  "fst ` set (fold (\<lambda>x m. countUp (f x) m) xs m) = fst ` set m \<union> f ` set xs"
  by (induction xs arbitrary: m) (auto simp: keys_countUp)

lemma sum_fold_countUp:
  "sum_list (map snd (fold (\<lambda>x m. countUp (f x) m) xs m)) = sum_list (map snd m) + length xs"
  by (induction xs arbitrary: m) (simp_all add: sum_countUp)

lemma map_of_classCouplingCount:
  "map_of (classCouplingCount result) c =
     (if couplingOf result c = 0 then None else Some (couplingOf result c))"
  by (simp add: classCouplingCount_def couplingOf_def fold_countUp)

lemma distinct_classCouplingCount: "distinct (map fst (classCouplingCount result))"
  by (simp add: classCouplingCount_def distinct_fold_countUp)

lemma keys_classCouplingCount: "fst ` set (classCouplingCount result) = classes result"
  by (auto simp: classCouplingCount_def keys_fold_countUp classes_def)

lemma sum_classCouplingCount:
  "sum_list (map snd (classCouplingCount result)) =
     length (busUsages result) + length (handlerDeclarations result)"
  by (simp add: classCouplingCount_def sum_fold_countUp)

lemma length_classCouplingCount: "length (classCouplingCount result) = card (classes result)"
proof -
  have "card (classes result) = card (set (map fst (classCouplingCount result)))"
    by (simp add: keys_classCouplingCount)
  also have "\<dots> = length (map fst (classCouplingCount result))"
    by (rule distinct_card) (rule distinct_classCouplingCount)
  finally show ?thesis by simp
qed

lemma fold_totals:
  fixes m :: "('k \<times> nat) list"
  shows "fold (\<lambda>(k, count) (total, n). (total + count, n + 1)) m (t0, n0) =
     (t0 + sum_list (map snd m), n0 + length m)"
  by (induction m arbitrary: t0 n0) (auto simp: case_prod_unfold)

lemma connectionTotals_eq:
  "connectionTotals result =
     (length (busUsages result) + length (handlerDeclarations result), card (classes result))"
  unfolding connectionTotals_def fold_totals
  by (simp add: sum_classCouplingCount length_classCouplingCount)

lemma count_list_positive: "(0 < count_list xs x) = (x \<in> set xs)"
  using count_list_0_iff [of xs x] by auto

lemma classes_positive: "classes result = {c. 0 < couplingOf result c}"
  by (auto simp: classes_def couplingOf_def count_list_positive)

lemma finite_classes: "finite (classes result)"
  by (simp add: classes_def)

lemma sum_couplingOf:
  "(\<Sum>c\<in>classes result. couplingOf result c) =
     length (busUsages result) + length (handlerDeclarations result)"
proof -
  have b: "sum (count_list (map className (busUsages result))) (classes result) =
      length (map className (busUsages result))"
    by (rule sum_count_set) (auto simp: classes_def)
  have h: "sum (count_list (map className (handlerDeclarations result))) (classes result) =
      length (map className (handlerDeclarations result))"
    by (rule sum_count_set) (auto simp: classes_def)
  show ?thesis
    using b h by (simp add: couplingOf_def [abs_def] sum.distrib)
qed

lemma averageConnections_eq:
  "averageConnections jsDivide jsZero result =
     (if classes result = {} then jsZero
      else jsDivide (\<Sum>c\<in>classes result. couplingOf result c) (card (classes result)))"
  by (simp add: averageConnections_def connectionTotals_eq sum_couplingOf finite_classes card_gt_0_iff)

lemma analyzeArchitecture_empty:
  assumes "busUsages result = [] \<and> handlerDeclarations result = []"
  shows "analyzeArchitecture jsDivide jsZero result =
      \<lparr>issues = [],
       metrics = \<lparr>metrics_totalClasses = 0, metrics_totalEvents = 0, metrics_eventProducers = 0,
         metrics_eventConsumers = 0, metrics_dualRoleClasses = 0, metrics_orphanEvents = 0,
         metrics_orphanHandlers = 0, metrics_averageConnections = jsZero\<rparr>\<rparr> \<and>
    busUsers result = [] \<and> handlerClasses result = [] \<and> dualRoleClasses result = [] \<and>
    classCouplingCount result = [] \<and> highCouplingClasses result = [] \<and>
    eventEmitters result = [] \<and> eventHandlers result = [] \<and>
    unhandledEvents result = [] \<and> orphanHandlers result = [] \<and> allEventTypes result = []"
proof -
  have a: "busUsers result = []" "handlerClasses result = []" "classCouplingCount result = []"
    "eventEmitters result = []" "eventHandlers result = []" "allEventTypes result = []"
    using assms
    by (simp_all add: busUsers_def handlerClasses_def classCouplingCount_def eventEmitters_def
        eventHandlers_def allEventTypes_def)
  have b: "dualRoleClasses result = []" "highCouplingClasses result = []"
    "unhandledEvents result = []" "orphanHandlers result = []"
    "connectionTotals result = (0, 0)"
    by (simp_all add: dualRoleClasses_def highCouplingClasses_def unhandledEvents_def
        orphanHandlers_def connectionTotals_def a)
  have "analyzeArchitecture jsDivide jsZero result =
      \<lparr>issues = [],
       metrics = \<lparr>metrics_totalClasses = 0, metrics_totalEvents = 0, metrics_eventProducers = 0,
         metrics_eventConsumers = 0, metrics_dualRoleClasses = 0, metrics_orphanEvents = 0,
         metrics_orphanHandlers = 0, metrics_averageConnections = jsZero\<rparr>\<rparr>"
    by (simp add: analyzeArchitecture_def analyzeIssues_def averageConnections_def a b)
  with a b show ?thesis by simp
qed

text \<open>
  Claim C7. The analyzer is a total function with no failing branch. The classes of its
  coupling map are those with a nonzero coupling count, and the map holds that count.
  Whatever the division of the host does, also for a divisor 0: \<open>averageConnections\<close> is the
  number 0 when there is no class, so that nothing is divided then, and otherwise it is the
  host's division of the sum of the coupling counts of the classes by the number of classes.
  For a result without edges, the issues and every derived collection are empty, every count
  is 0 and \<open>averageConnections\<close> is the number 0.
\<close>

theorem analyzer_average:
  "classes result = {c. 0 < couplingOf result c} \<and>
   map_of (classCouplingCount result) c =
     (if couplingOf result c = 0 then None else Some (couplingOf result c)) \<and>
   metrics_averageConnections (metrics (analyzeArchitecture jsDivide jsZero result)) =
     (if classes result = {} then jsZero
      else jsDivide (\<Sum>c\<in>classes result. couplingOf result c) (card (classes result))) \<and>
   (busUsages result = [] \<and> handlerDeclarations result = [] \<longrightarrow>
      analyzeArchitecture jsDivide jsZero result =
        \<lparr>issues = [],
         metrics = \<lparr>metrics_totalClasses = 0, metrics_totalEvents = 0, metrics_eventProducers = 0,
           metrics_eventConsumers = 0, metrics_dualRoleClasses = 0, metrics_orphanEvents = 0,
           metrics_orphanHandlers = 0, metrics_averageConnections = jsZero\<rparr>\<rparr> \<and>
      busUsers result = [] \<and> handlerClasses result = [] \<and> dualRoleClasses result = [] \<and>
      classCouplingCount result = [] \<and> highCouplingClasses result = [] \<and>
      eventEmitters result = [] \<and> eventHandlers result = [] \<and>
      unhandledEvents result = [] \<and> orphanHandlers result = [] \<and> allEventTypes result = [])"
proof (intro conjI impI)
  show "classes result = {c. 0 < couplingOf result c}"
    by (rule classes_positive)
  show "map_of (classCouplingCount result) c =
     (if couplingOf result c = 0 then None else Some (couplingOf result c))"
    by (rule map_of_classCouplingCount)
  show "metrics_averageConnections (metrics (analyzeArchitecture jsDivide jsZero result)) =
     (if classes result = {} then jsZero
      else jsDivide (\<Sum>c\<in>classes result. couplingOf result c) (card (classes result)))"
    by (simp add: analyzeArchitecture_def averageConnections_eq)
qed (simp_all add: analyzeArchitecture_empty)

lemma sampleResult_classes:
  "classes sampleResult = {''OrderService'', ''OrderHandler'', ''AuditHandler''}"
  by (auto simp: classes_def sampleResult_def sampleUsage_def sampleHandler_def)

lemma sampleResult_coupling:
  "couplingOf sampleResult ''OrderService'' = 2"
  "couplingOf sampleResult ''OrderHandler'' = 2"
  "couplingOf sampleResult ''AuditHandler'' = 1"
  by (simp_all add: couplingOf_def sampleResult_def sampleUsage_def sampleHandler_def)

theorem analyzer_average_witness:
  "metrics_averageConnections
     (metrics (analyzeArchitecture HostQuotient HostZero sampleResult)) = HostQuotient 5 3 \<and>
   analyzeArchitecture HostQuotient HostZero emptyResult =
     \<lparr>issues = [],
      metrics = \<lparr>metrics_totalClasses = 0, metrics_totalEvents = 0, metrics_eventProducers = 0,
        metrics_eventConsumers = 0, metrics_dualRoleClasses = 0, metrics_orphanEvents = 0,
        metrics_orphanHandlers = 0, metrics_averageConnections = HostZero\<rparr>\<rparr>"
proof -
  have empty: "busUsages emptyResult = [] \<and> handlerDeclarations emptyResult = []"
    by (simp add: emptyResult_def)
  have "metrics_averageConnections
     (metrics (analyzeArchitecture HostQuotient HostZero sampleResult)) = HostQuotient 5 3"
    unfolding analyzer_average [of sampleResult _ HostQuotient HostZero,
        THEN conjunct2, THEN conjunct2, THEN conjunct1]
      sampleResult_classes
    by (simp add: sampleResult_coupling)
  with analyzer_average [of emptyResult _ HostQuotient HostZero,
      THEN conjunct2, THEN conjunct2, THEN conjunct2, THEN mp, OF empty, THEN conjunct1]
  show ?thesis by blast
qed

lemma map_of_pushTo:
  "map_of (pushTo k v m) = (map_of m)(k \<mapsto> getOrEmpty m k @ [v])"
  by (cases "map_of m k") (simp_all add: pushTo_def getOrEmpty_def update_conv' Let_def)

lemma keys_pushTo: "fst ` set (pushTo k v m) = insert k (fst ` set m)"
  by (cases "map_of m k") (auto simp: pushTo_def update_conv' dom_update Let_def)

lemma distinct_pushTo: "distinct (map fst m) \<Longrightarrow> distinct (map fst (pushTo k v m))"
  by (cases "map_of m k") (simp_all add: pushTo_def update_conv' distinct_update Let_def)

lemma valuesNonEmpty_pushTo: "valuesNonEmpty m \<Longrightarrow> valuesNonEmpty (pushTo k v m)"
  by (simp add: valuesNonEmpty_def map_of_pushTo)

lemma fold_pushTo:
  "fst ` set (fold (\<lambda>x m. pushTo (f x) (g x) m) xs m) = fst ` set m \<union> f ` set xs \<and>
   (distinct (map fst m) \<longrightarrow> distinct (map fst (fold (\<lambda>x m. pushTo (f x) (g x) m) xs m))) \<and>
   (valuesNonEmpty m \<longrightarrow> valuesNonEmpty (fold (\<lambda>x m. pushTo (f x) (g x) m) xs m))"
proof (induction xs arbitrary: m)
  case Nil
  show ?case by simp
next
  case (Cons x xs)
  from Cons.IH [of "pushTo (f x) (g x) m"] show ?case
    by (auto simp: keys_pushTo distinct_pushTo valuesNonEmpty_pushTo)
qed

lemma eventEmitters_facts:
  "fst ` set (eventEmitters result) = eventType ` set (busUsages result)"
  "distinct (map fst (eventEmitters result))"
  "valuesNonEmpty (eventEmitters result)"
  using fold_pushTo [of eventType className "busUsages result" "[]"]
  by (simp_all add: eventEmitters_def valuesNonEmpty_def)

lemma eventHandlers_facts:
  "fst ` set (eventHandlers result) = eventType ` set (handlerDeclarations result)"
  "distinct (map fst (eventHandlers result))"
  "valuesNonEmpty (eventHandlers result)"
  using fold_pushTo [of eventType className "handlerDeclarations result" "[]"]
  by (simp_all add: eventHandlers_def valuesNonEmpty_def)

lemma absentOrEmpty_iff:
  assumes "valuesNonEmpty m"
  shows "absentOrEmpty m e = (e \<notin> fst ` set m)"
proof (cases "map_of m e")
  case None
  then have "e \<notin> fst ` set m" by (simp add: map_of_eq_None_iff)
  with None show ?thesis by (simp add: absentOrEmpty_def)
next
  case (Some vs)
  with assms have "vs \<noteq> []" by (auto simp: valuesNonEmpty_def)
  moreover from Some have "e \<in> fst ` set m"
    by (metis map_of_eq_None_iff option.distinct(1))
  ultimately show ?thesis using Some by (simp add: absentOrEmpty_def)
qed

lemma fold_push_filter:
  "fold (\<lambda>(k, v) acc. if P k then acc @ [k] else acc) m acc0 = acc0 @ filter P (map fst m)"
  by (induction m arbitrary: acc0) (auto simp: case_prod_unfold)

lemma unhandledEvents_filter:
  "unhandledEvents result =
     filter (\<lambda>e. e \<notin> eventType ` set (handlerDeclarations result)) (map fst (eventEmitters result))"
  unfolding unhandledEvents_def fold_push_filter
  by (simp add: absentOrEmpty_iff [OF eventHandlers_facts(3)] eventHandlers_facts(1))

lemma orphanHandlers_filter:
  "orphanHandlers result =
     filter (\<lambda>e. e \<notin> eventType ` set (busUsages result)) (map fst (eventHandlers result))"
  unfolding orphanHandlers_def fold_push_filter
  by (simp add: absentOrEmpty_iff [OF eventEmitters_facts(3)] eventEmitters_facts(1))

lemma set_unhandledEvents:
  "set (unhandledEvents result) =
     eventType ` set (busUsages result) - eventType ` set (handlerDeclarations result)"
  using eventEmitters_facts(1) [of result] by (auto simp: unhandledEvents_filter)

lemma set_orphanHandlers:
  "set (orphanHandlers result) =
     eventType ` set (handlerDeclarations result) - eventType ` set (busUsages result)"
  using eventHandlers_facts(1) [of result] by (auto simp: orphanHandlers_filter)

text \<open>
  Claim C8. \<open>unhandledEvents\<close> holds exactly the event types of the bus-usage edges that no
  handler edge has, \<open>orphanHandlers\<close> exactly the event types of the handler edges that no
  bus-usage edge has (an entry of either map is never empty), each once; no event type is in
  both. They are the elements of the issues \<open>UnhandledEvents\<close> and \<open>OrphanHandlers\<close> of the
  analyzer's output.
\<close>

theorem unhandled_orphan_disjoint:
  "set (unhandledEvents result) =
     eventType ` set (busUsages result) - eventType ` set (handlerDeclarations result) \<and>
   set (orphanHandlers result) =
     eventType ` set (handlerDeclarations result) - eventType ` set (busUsages result) \<and>
   set (unhandledEvents result) \<inter> set (orphanHandlers result) = {} \<and>
   distinct (unhandledEvents result) \<and> distinct (orphanHandlers result) \<and>
   map issue_elements
     (filter (\<lambda>i. issue_type i = ''UnhandledEvents'') (issues (analyzeArchitecture jsDivide jsZero result))) =
     (if unhandledEvents result = [] then [] else [unhandledEvents result]) \<and>
   map issue_elements
     (filter (\<lambda>i. issue_type i = ''OrphanHandlers'') (issues (analyzeArchitecture jsDivide jsZero result))) =
     (if orphanHandlers result = [] then [] else [orphanHandlers result])"
proof (intro conjI)
  show "set (unhandledEvents result) =
     eventType ` set (busUsages result) - eventType ` set (handlerDeclarations result)"
    by (rule set_unhandledEvents)
  show "set (orphanHandlers result) =
     eventType ` set (handlerDeclarations result) - eventType ` set (busUsages result)"
    by (rule set_orphanHandlers)
  show "set (unhandledEvents result) \<inter> set (orphanHandlers result) = {}"
    unfolding set_unhandledEvents set_orphanHandlers by blast
  show "distinct (unhandledEvents result)"
    unfolding unhandledEvents_filter
    by (rule distinct_filter) (rule eventEmitters_facts(2))
  show "distinct (orphanHandlers result)"
    unfolding orphanHandlers_filter
    by (rule distinct_filter) (rule eventHandlers_facts(2))
  show "map issue_elements
     (filter (\<lambda>i. issue_type i = ''UnhandledEvents'') (issues (analyzeArchitecture jsDivide jsZero result))) =
     (if unhandledEvents result = [] then [] else [unhandledEvents result])"
    by (simp add: analyzeArchitecture_def analyzeIssues_def)
  show "map issue_elements
     (filter (\<lambda>i. issue_type i = ''OrphanHandlers'') (issues (analyzeArchitecture jsDivide jsZero result))) =
     (if orphanHandlers result = [] then [] else [orphanHandlers result])"
    by (simp add: analyzeArchitecture_def analyzeIssues_def)
qed

lemma sampleResult_events:
  "unhandledEvents sampleResult = [''ShipOrderCommand'', ''OrderCreatedEvent'']"
  "orphanHandlers sampleResult = [''OrderArchivedEvent'']"
  by code_simp+

theorem unhandled_orphan_disjoint_witness:
  "set [''ShipOrderCommand'', ''OrderCreatedEvent''] \<inter> set [''OrderArchivedEvent''] = {} \<and>
   map issue_elements
     (filter (\<lambda>i. issue_type i = ''UnhandledEvents'') (issues (analyzeArchitecture HostQuotient HostZero sampleResult))) =
     [[''ShipOrderCommand'', ''OrderCreatedEvent'']]"
proof -
  note facts = unhandled_orphan_disjoint [of sampleResult, unfolded sampleResult_events]
  from facts [THEN conjunct2, THEN conjunct2, THEN conjunct1]
    facts [THEN conjunct2, THEN conjunct2, THEN conjunct2, THEN conjunct2, THEN conjunct2,
      THEN conjunct1]
  show ?thesis by simp
qed

end
